theory Spec2Isabelle
  imports Complex_Main "HOL-Library.Extended_Nat"
begin

section \<open>Enumerations (utils/Enums.js)\<close>

datatype ResourceType = WOOD | STONE | IRON_ORE | IRON | PLANK | WHEAT | FLOUR | BREAD | MEAT

datatype BuildingType =
  WAREHOUSE | WOODCUTTER | SAWMILL | STONEMASON | MINE | IRONSMITH | FARM | MILL | BAKERY | HUNTER

text \<open>The terrain kind \<open>stone\<close> is written \<open>STONE_TERRAIN\<close>, the name \<open>STONE\<close> being taken
  by the resource.\<close>

datatype TerrainType = GRASS | WATER | STONE_TERRAIN | MOUNTAIN | FOREST | SAND | SNOW

section \<open>ResourceManager (core/ResourceManager.js)\<close>

text \<open>
  \<open>this.resources\<close> is an object from resource type to a number: a partial map to \<open>int\<close>.
  Reading a missing key gives \<open>undefined\<close>, here \<open>None\<close>. The listeners only observe the
  ledger and are left out.
\<close>

type_synonym ledger = "ResourceType \<rightharpoonup> int"

text \<open>A requirements object (\<open>Object.entries\<close> of it): its entries in insertion order. The keys of
  a JavaScript object are distinct, which theorems ask for where it matters.\<close>

type_synonym requirements = "(ResourceType \<times> int) list"

definition initial_resources :: ledger where
  "initial_resources =
     [WOOD \<mapsto> 20, STONE \<mapsto> 10, IRON_ORE \<mapsto> 0, IRON \<mapsto> 0, PLANK \<mapsto> 10,
      WHEAT \<mapsto> 0, FLOUR \<mapsto> 0, BREAD \<mapsto> 10, MEAT \<mapsto> 5]"

text \<open>JavaScript's \<open>!v\<close> on a count: true for \<open>undefined\<close> and for \<open>0\<close>.\<close>

fun falsy :: "int option \<Rightarrow> bool" where
  "falsy None = True"
| "falsy (Some v) = (v = 0)"

text \<open>\<open>getResource(type)\<close>: \<open>this.resources[type] || 0\<close>.\<close>

definition getResource :: "ledger \<Rightarrow> ResourceType \<Rightarrow> int" where
  "getResource rs t = (case rs t of None \<Rightarrow> 0 | Some v \<Rightarrow> (if v = 0 then 0 else v))"

text \<open>\<open>addResource(type, amount)\<close>: a falsy entry is set to 0 first; always returns true.\<close>

definition addResource :: "ledger \<Rightarrow> ResourceType \<Rightarrow> int \<Rightarrow> ledger \<times> bool" where
  "addResource rs t amount =
     (let rs1 = (if falsy (rs t) then rs(t \<mapsto> 0) else rs)
      in (rs1(t := map_option (\<lambda>v. v + amount) (rs1 t)), True))"

text \<open>\<open>removeResource(type, amount)\<close>: the guard returns false before any write. Past the
  guard the entry is present, so the \<open>None\<close> case of the write is never taken.\<close>

definition removeResource :: "ledger \<Rightarrow> ResourceType \<Rightarrow> int \<Rightarrow> ledger \<times> bool" where
  "removeResource rs t amount =
     (if falsy (rs t) \<or> (case rs t of None \<Rightarrow> False | Some v \<Rightarrow> v < amount) then (rs, False)
      else (rs(t := map_option (\<lambda>v. v - amount) (rs t)), True))"

definition consumeResource :: "ledger \<Rightarrow> ResourceType \<Rightarrow> int \<Rightarrow> ledger \<times> bool" where
  "consumeResource rs t amount = removeResource rs t amount"

text \<open>\<open>hasResources(requirements)\<close>: the loop returns false at the first entry that fails.\<close>

fun hasResources :: "ledger \<Rightarrow> requirements \<Rightarrow> bool" where
  "hasResources rs [] = True"
| "hasResources rs ((t, amount) # rest) =
     (if falsy (rs t) \<or> (case rs t of None \<Rightarrow> False | Some v \<Rightarrow> v < amount) then False
      else hasResources rs rest)"

text \<open>The second loop of \<open>consumeResources\<close>: \<open>this.resources[type] -= amount\<close> per entry.\<close>

fun decrementAll :: "ledger \<Rightarrow> requirements \<Rightarrow> ledger" where
  "decrementAll rs [] = rs"
| "decrementAll rs ((t, amount) # rest) =
     decrementAll (rs(t := map_option (\<lambda>v. v - amount) (rs t))) rest"

definition consumeResources :: "ledger \<Rightarrow> requirements \<Rightarrow> ledger \<times> bool" where
  "consumeResources rs reqs =
     (if \<not> hasResources rs reqs then (rs, False) else (decrementAll rs reqs, True))"

text \<open>A call on the ledger, for sequences of calls; the boolean result is dropped.\<close>

datatype ledger_op =
  Add ResourceType int | Remove ResourceType int | ConsumeAll requirements

fun apply_op :: "ledger \<Rightarrow> ledger_op \<Rightarrow> ledger" where
  "apply_op rs (Add t n) = fst (addResource rs t n)"
| "apply_op rs (Remove t n) = fst (removeResource rs t n)"
| "apply_op rs (ConsumeAll reqs) = fst (consumeResources rs reqs)"

text \<open>The calls the invariant is about: amounts are not negative, and a requirements object has
  distinct keys.\<close>

fun valid_op :: "ledger_op \<Rightarrow> bool" where
  "valid_op (Add t n) = (0 \<le> n)"
| "valid_op (Remove t n) = (0 \<le> n)"
| "valid_op (ConsumeAll reqs) = (distinct (map fst reqs) \<and> list_all (\<lambda>(t, a). 0 \<le> a) reqs)"

definition nonneg :: "ledger \<Rightarrow> bool" where
  "nonneg rs = (\<forall>t. 0 \<le> getResource rs t)"

text \<open>The ledger after a sequence of calls, the first call first.\<close>

definition run_ops :: "ledger \<Rightarrow> ledger_op list \<Rightarrow> ledger" where
  "run_ops rs ops = foldl apply_op rs ops"

section \<open>Constants (utils/Constants.js)\<close>

text \<open>\<open>buildingCosts\<close>: the resources needed to build, entries in the order written.\<close>

fun buildingCosts :: "BuildingType \<Rightarrow> requirements" where
  "buildingCosts WAREHOUSE = [(PLANK, 20), (STONE, 10)]"
| "buildingCosts WOODCUTTER = [(PLANK, 5)]"
| "buildingCosts SAWMILL = [(PLANK, 5), (STONE, 5)]"
| "buildingCosts STONEMASON = [(PLANK, 5)]"
| "buildingCosts MINE = [(PLANK, 5), (STONE, 10)]"
| "buildingCosts IRONSMITH = [(PLANK, 5), (STONE, 10)]"
| "buildingCosts FARM = [(PLANK, 5)]"
| "buildingCosts MILL = [(PLANK, 5), (STONE, 5)]"
| "buildingCosts BAKERY = [(PLANK, 5), (STONE, 10)]"
| "buildingCosts HUNTER = [(PLANK, 5)]"

section \<open>Entity, Building, Warehouse, Woodcutter, Construction\<close>

text \<open>A grid position \<open>{x, y}\<close> and a footprint \<open>{width, height}\<close> are pairs of integers.
  The records hold the fields that the methods modelled here read or write; meshes, sprites,
  names and the production fields are left out.\<close>

type_synonym pos = "int \<times> int"
type_synonym footprint = "int \<times> int"

record Entity =
  position :: pos

record Building = Entity +
  btype :: BuildingType
  bsize :: footprint
  interactionPoint :: pos

text \<open>\<open>Building._defineInteractionPoint\<close>: bottom edge, middle (\<open>Math.floor(width / 2)\<close>);
  for type \<open>warehouse\<close> the bottom right corner. It reads \<open>this.size\<close> as it is at the
  time of the call.\<close>

definition defineInteractionPoint :: "'a Building_scheme \<Rightarrow> 'a Building_scheme" where
  "defineInteractionPoint b =
     (let b1 = b\<lparr>interactionPoint :=
                  (fst (position b) + fst (bsize b) div 2, snd (position b) + snd (bsize b) - 1)\<rparr>
      in if btype b1 = WAREHOUSE
         then b1\<lparr>interactionPoint :=
                  (fst (position b1) + fst (bsize b1) - 1, snd (position b1) + snd (bsize b1) - 1)\<rparr>
         else b1)"

text \<open>The \<open>Building\<close> constructor: size 1 by 1, then \<open>_defineInteractionPoint()\<close>. The
  interaction point has no value before that call; the value written in the record literal is
  overwritten by it.\<close>

definition Building_new :: "int \<Rightarrow> int \<Rightarrow> BuildingType \<Rightarrow> Building" where
  "Building_new x y t =
     defineInteractionPoint
       \<lparr>position = (x, y), btype = t, bsize = (1, 1), interactionPoint = (x, y)\<rparr>"

text \<open>The \<open>Warehouse\<close> constructor: \<open>super(world, x, y, WAREHOUSE)\<close>, then
  \<open>this.size = {2, 2}\<close>; nothing after that computes the interaction point again.\<close>

definition Warehouse_new :: "int \<Rightarrow> int \<Rightarrow> Building" where
  "Warehouse_new x y = (Building_new x y WAREHOUSE)\<lparr>bsize := (2, 2)\<rparr>"

definition Woodcutter_new :: "int \<Rightarrow> int \<Rightarrow> Building" where
  "Woodcutter_new x y = (Building_new x y WOODCUTTER)\<lparr>bsize := (1, 1)\<rparr>"

record Construction = Building +
  targetBuildingType :: BuildingType
  progress :: int
  requiredResources :: requirements
  allocatedResources :: "ResourceType \<rightharpoonup> int"

text \<open>The \<open>Construction\<close> constructor: \<open>super(world, x, y, WAREHOUSE)\<close>, the size of the
  target type, \<open>_defineInteractionPoint()\<close> again, progress 0, the cost table's entry copied,
  and an allocation of 0 for each of its keys.\<close>

definition Construction_new :: "int \<Rightarrow> int \<Rightarrow> BuildingType \<Rightarrow> Construction" where
  "Construction_new x y target =
     (let b = Building_new x y WAREHOUSE
      in defineInteractionPoint
           \<lparr>position = position b, btype = btype b,
            bsize = (if target = WAREHOUSE then 2 else 1, if target = WAREHOUSE then 2 else 1),
            interactionPoint = interactionPoint b,
            targetBuildingType = target, progress = 0,
            requiredResources = buildingCosts target,
            allocatedResources = map_of (map (\<lambda>(r, a). (r, 0)) (buildingCosts target))\<rparr>)"

text \<open>\<open>Construction._hasAllResources\<close>: every required entry has
  \<open>allocatedResources[resource] >= amount\<close>; the comparison is false for a missing
  entry.\<close>

definition hasAllResources :: "Construction \<Rightarrow> bool" where
  "hasAllResources c =
     list_all (\<lambda>(r, amount). case allocatedResources c r of None \<Rightarrow> False | Some v \<Rightarrow> amount \<le> v)
       (requiredResources c)"

text \<open>The tile the claim about interaction points names: the bottom right corner of the
  footprint for a warehouse, the bottom centre otherwise.\<close>

definition designatedPoint :: "BuildingType \<Rightarrow> pos \<Rightarrow> footprint \<Rightarrow> pos" where
  "designatedPoint t p sz =
     (if t = WAREHOUSE then (fst p + (fst sz - 1), snd p + (snd sz - 1))
      else (fst p + fst sz div 2, snd p + (snd sz - 1)))"

section \<open>World state (core/World.js)\<close>

text \<open>
  A tile of \<open>terrain[y][x]\<close>. \<open>building\<close> is the back-reference to the occupying
  Building or Construction; the record holds that object's \<open>type\<close>, \<open>position\<close>,
  \<open>size\<close> and \<open>interactionPoint\<close>, which are the fields read through the reference and
  which no method writes after the constructor. For a Construction the \<open>type\<close> is the one
  passed to \<open>super\<close>, \<open>warehouse\<close>.

  The world owns the list \<open>constructions\<close>. Constructions are objects shared by reference
  between that list, the porters and the builders, and are written through those references:
  \<open>cobj\<close> is the store of Construction objects by reference, \<open>constructions\<close> the list of
  references, \<open>nextRef\<close> the next unused reference. \<open>resourceManager\<close> is
  \<open>this.game.resourceManager\<close>. \<open>placementPreviewMesh\<close> says whether the preview mesh
  is set.
\<close>

record Tile =
  ttype :: TerrainType
  building :: "Building option"
  buildable :: bool

record World =
  wsize :: footprint
  tileSize :: int
  terrain :: "Tile list list"
  buildings :: "Building list"
  constructions :: "nat list"
  cobj :: "nat \<Rightarrow> Construction"
  nextRef :: nat
  resourceManager :: ledger
  buildingPlacementMode :: bool
  buildingTypeToPlace :: "BuildingType option"
  placementPreviewMesh :: bool
  placementValid :: bool
  placementGridPosition :: "pos option"

section \<open>PathFinder (utils/PathFinding.js)\<close>

text \<open>\<open>_isPassable(x, y)\<close>: bounds, then water and mountain, then an occupied tile, which is
  passable only at the entry point of its building.\<close>

definition isPassable :: "World \<Rightarrow> int \<Rightarrow> int \<Rightarrow> bool" where
  "isPassable w x y =
     (if x < 0 \<or> y < 0 \<or> x \<ge> fst (wsize w) \<or> y \<ge> snd (wsize w) then False
      else let tile = terrain w ! nat y ! nat x
           in if ttype tile = WATER \<or> ttype tile = MOUNTAIN then False
              else case building tile of
                     Some b \<Rightarrow>
                       if btype b = WAREHOUSE
                       then x = fst (position b) + fst (bsize b) - 1
                          \<and> y = snd (position b) + snd (bsize b) - 1
                       else y = snd (position b) + snd (bsize b) - 1
                          \<and> (x \<ge> fst (position b) \<and> x < fst (position b) + fst (bsize b))
                   | None \<Rightarrow> True)"

text \<open>\<open>_createGrid()\<close>: \<open>grid[y][x] = _isPassable(x, y)\<close> for every cell of the world.\<close>

definition createGrid :: "World \<Rightarrow> bool list list" where
  "createGrid w =
     map (\<lambda>y. map (\<lambda>x. isPassable w (int x) (int y)) [0..<nat (fst (wsize w))])
       [0..<nat (snd (wsize w))]"

definition directions :: "(int \<times> int) list" where
  "directions = [(0, -1), (1, 0), (0, 1), (-1, 0)]"

text \<open>\<open>_getNeighbors(x, y, grid)\<close>: north, east, south, west, in that order; a neighbour out
  of bounds is skipped before the grid is read.\<close>

definition getNeighbors :: "World \<Rightarrow> int \<Rightarrow> int \<Rightarrow> bool list list \<Rightarrow> pos list" where
  "getNeighbors w x y grid =
     filter (\<lambda>(newX, newY).
               \<not> (newX < 0 \<or> newY < 0 \<or> newX \<ge> fst (wsize w) \<or> newY \<ge> snd (wsize w))
               \<and> grid ! nat newY ! nat newX)
       (map (\<lambda>(dx, dy). (x + dx, y + dy)) directions)"

text \<open>\<open>_heuristic\<close>: the Manhattan distance.\<close>

definition heuristic :: "int \<Rightarrow> int \<Rightarrow> int \<Rightarrow> int \<Rightarrow> int" where
  "heuristic x1 y1 x2 y2 = \<bar>x1 - x2\<bar> + \<bar>y1 - y2\<bar>"

text \<open>\<open>_nodeKey(x, y)\<close> is the string \<open>x,y\<close>, which determines \<open>x\<close> and \<open>y\<close> for
  integers; the key is modelled as the pair, and \<open>current.split(',').map(Number)\<close> in
  \<open>_reconstructPath\<close> is then the identity.\<close>

definition nodeKey :: "int \<Rightarrow> int \<Rightarrow> pos" where
  "nodeKey x y = (x, y)"

text \<open>
  An entry of \<open>openSet\<close> is \<open>{key, x, y, f}\<close> (the fields \<open>nkey\<close>, \<open>nx\<close>, \<open>ny\<close>,
  \<open>nf\<close>). Scores are JavaScript numbers that are natural numbers or \<open>Infinity\<close>:
  the type \<open>enat\<close>, where \<open>\<infinity> + 1 = \<infinity>\<close> as for \<open>Infinity + 1\<close>. The search state is
  the five collections of \<open>findPath\<close>.
\<close>

record OpenNode =
  nkey :: pos
  nx :: int
  ny :: int
  nf :: enat

record AStar =
  openSet :: "OpenNode list"
  closedSet :: "pos set"
  cameFrom :: "pos \<rightharpoonup> pos"
  gScore :: "pos \<rightharpoonup> enat"
  fScore :: "pos \<rightharpoonup> enat"

text \<open>\<open>score || Infinity\<close>: \<open>Infinity\<close> for a missing score and for the score 0, which
  is falsy.\<close>

fun orInfinity :: "enat option \<Rightarrow> enat" where
  "orInfinity None = \<infinity>"
| "orInfinity (Some v) = (if v = 0 then \<infinity> else v)"

text \<open>\<open>Array.prototype.findIndex\<close>, with \<open>None\<close> for \<open>-1\<close>.\<close>

fun findIndex :: "('a \<Rightarrow> bool) \<Rightarrow> 'a list \<Rightarrow> nat option" where
  "findIndex P [] = None"
| "findIndex P (x # xs) = (if P x then Some 0 else map_option Suc (findIndex P xs))"

text \<open>The body of the loop over the neighbours of \<open>current\<close>, for one neighbour.\<close>

definition visitNeighbor :: "int \<Rightarrow> int \<Rightarrow> OpenNode \<Rightarrow> pos \<Rightarrow> AStar \<Rightarrow> AStar" where
  "visitNeighbor endX endY current neighbor st =
     (let neighborKey = nodeKey (fst neighbor) (snd neighbor)
      in if neighborKey \<in> closedSet st then st
         else
           let tentativeGScore = orInfinity (gScore st (nkey current)) + 1;
               existingIndex = findIndex (\<lambda>n. nkey n = neighborKey) (openSet st);
               f = tentativeGScore
                     + enat (nat (heuristic (fst neighbor) (snd neighbor) endX endY))
           in case existingIndex of
                None \<Rightarrow>
                  st\<lparr>openSet := openSet st
                         @ [\<lparr>nkey = neighborKey, nx = fst neighbor, ny = snd neighbor, nf = f\<rparr>],
                     cameFrom := (cameFrom st)(neighborKey \<mapsto> nkey current),
                     gScore := (gScore st)(neighborKey \<mapsto> tentativeGScore),
                     fScore := (fScore st)(neighborKey \<mapsto> f)\<rparr>
              | Some i \<Rightarrow>
                  if tentativeGScore \<ge> orInfinity (gScore st neighborKey) then st
                  else st\<lparr>openSet := (openSet st)[i := (openSet st ! i)\<lparr>nf := f\<rparr>],
                          cameFrom := (cameFrom st)(neighborKey \<mapsto> nkey current),
                          gScore := (gScore st)(neighborKey \<mapsto> tentativeGScore),
                          fScore := (fScore st)(neighborKey \<mapsto> f)\<rparr>)"

text \<open>\<open>_reconstructPath(cameFrom, currentKey)\<close>: the loop runs while \<open>cameFrom\<close> has the
  current key, and need not end for an arbitrary \<open>cameFrom\<close>; \<open>None\<close> is not returning.
  \<open>path.unshift\<close> puts the cell in front.\<close>

partial_function (option) reconstructPath :: "(pos \<rightharpoonup> pos) \<Rightarrow> pos \<Rightarrow> pos list \<Rightarrow> pos list option"
where
  "reconstructPath cf current path =
     (case cf current of
        None \<Rightarrow> Some path
      | Some prev \<Rightarrow> reconstructPath cf prev (current # path))"

declare reconstructPath.simps [code]

text \<open>
  The main loop ends because \<open>workLeft\<close> decreases with every iteration: twice the number
  of cells of the grid that are neither closed nor in the open set, plus the length of the open
  set. Taking the current node out of the open set decreases it by one at least, and a
  neighbour that is pushed leaves the first set.
\<close>

definition cells :: "World \<Rightarrow> pos set" where
  "cells w = {0..<fst (wsize w)} \<times> {0..<snd (wsize w)}"

definition unseen :: "World \<Rightarrow> AStar \<Rightarrow> pos set" where
  "unseen w st = {c \<in> cells w. c \<notin> closedSet st \<and> c \<notin> nkey ` set (openSet st)}"

definition workLeft :: "World \<Rightarrow> AStar \<Rightarrow> nat" where
  "workLeft w st = 2 * card (unseen w st) + length (openSet st)"

lemma finite_unseen: "finite (unseen w st)"
  by (simp add: unseen_def cells_def)

lemma getNeighbors_cells: "n \<in> set (getNeighbors w x y grid) \<Longrightarrow> n \<in> cells w"
  by (auto simp: getNeighbors_def cells_def)

lemma findIndex_None: "findIndex P xs = None \<longleftrightarrow> (\<forall>x \<in> set xs. \<not> P x)"
  by (induction xs) auto

lemma findIndex_Some: "findIndex P xs = Some i \<Longrightarrow> i < length xs \<and> P (xs ! i)"
  by (induction xs arbitrary: i) (auto split: if_splits)

lemma keys_update_nf:
  "i < length xs \<Longrightarrow> map nkey (xs[i := (xs ! i)\<lparr>nf := v\<rparr>]) = map nkey xs"
  by (simp add: list_eq_iff_nth_eq nth_list_update)

lemma workLeft_visitNeighbor:
  assumes "n \<in> cells w"
  shows "workLeft w (visitNeighbor ex ey cur n st) \<le> workLeft w st"
proof (cases "nodeKey (fst n) (snd n) \<in> closedSet st")
  case True
  then show ?thesis by (simp add: visitNeighbor_def)
next
  case False
  note open1 = False
  show ?thesis
  proof (cases "findIndex (\<lambda>m. nkey m = nodeKey (fst n) (snd n)) (openSet st)")
    case None
    then have fresh: "n \<notin> nkey ` set (openSet st)"
      by (auto simp: findIndex_None nodeKey_def)
    have nin: "n \<in> unseen w st"
      using assms open1 fresh by (simp add: unseen_def nodeKey_def)
    have "unseen w (visitNeighbor ex ey cur n st) = unseen w st - {n}"
      using None open1 by (auto simp: visitNeighbor_def unseen_def nodeKey_def Let_def)
    then have "card (unseen w (visitNeighbor ex ey cur n st)) = card (unseen w st) - 1"
      using nin by (simp add: finite_unseen)
    moreover have "card (unseen w st) > 0"
      using nin finite_unseen [of w st] by (auto simp: card_gt_0_iff)
    moreover have "length (openSet (visitNeighbor ex ey cur n st)) = length (openSet st) + 1"
      using None open1 by (simp add: visitNeighbor_def Let_def)
    ultimately show ?thesis by (simp add: workLeft_def)
  next
    case (Some i)
    then have i: "i < length (openSet st)" by (auto dest: findIndex_Some)
    have "map nkey (openSet (visitNeighbor ex ey cur n st)) = map nkey (openSet st)"
      using Some open1 i by (simp add: visitNeighbor_def Let_def keys_update_nf)
    then have "nkey ` set (openSet (visitNeighbor ex ey cur n st)) = nkey ` set (openSet st)"
      and "length (openSet (visitNeighbor ex ey cur n st)) = length (openSet st)"
      by (metis set_map, metis length_map)
    moreover have "closedSet (visitNeighbor ex ey cur n st) = closedSet st"
      using Some open1 by (simp add: visitNeighbor_def Let_def)
    ultimately show ?thesis by (simp add: workLeft_def unseen_def)
  qed
qed

lemma workLeft_fold:
  "set ns \<subseteq> cells w \<Longrightarrow> workLeft w (fold (visitNeighbor ex ey cur) ns st) \<le> workLeft w st"
proof (induction ns arbitrary: st)
  case Nil
  then show ?case by simp
next
  case (Cons n ns)
  have "workLeft w (fold (visitNeighbor ex ey cur) ns (visitNeighbor ex ey cur n st))
          \<le> workLeft w (visitNeighbor ex ey cur n st)"
    using Cons by simp
  also have "\<dots> \<le> workLeft w st"
    using Cons.prems by (simp add: workLeft_visitNeighbor)
  finally show ?case by simp
qed

lemma workLeft_pop:
  assumes "openSet st \<noteq> []"
  shows "workLeft w (st\<lparr>openSet := tl (sort_key nf (openSet st)),
                        closedSet := insert (nkey (hd (sort_key nf (openSet st)))) (closedSet st)\<rparr>)
           < workLeft w st"
proof -
  let ?s = "sort_key nf (openSet st)"
  have ne: "?s \<noteq> []" using assms by (metis length_0_conv length_sort)
  have keys: "nkey ` set (openSet st) = insert (nkey (hd ?s)) (nkey ` set (tl ?s))"
  proof -
    have "set (openSet st) = set ?s" by simp
    also have "\<dots> = insert (hd ?s) (set (tl ?s))" using ne by (cases ?s) auto
    finally show ?thesis by simp
  qed
  have "unseen w (st\<lparr>openSet := tl ?s, closedSet := insert (nkey (hd ?s)) (closedSet st)\<rparr>)
          \<subseteq> unseen w st"
    by (auto simp: unseen_def keys)
  then have "card (unseen w (st\<lparr>openSet := tl ?s, closedSet := insert (nkey (hd ?s)) (closedSet st)\<rparr>))
          \<le> card (unseen w st)"
    by (rule card_mono [OF finite_unseen])
  moreover have "length (tl ?s) < length (openSet st)"
    using ne assms by (simp add: length_greater_0_conv)
  ultimately show ?thesis by (simp add: workLeft_def)
qed

text \<open>
  The loop of \<open>findPath\<close>. \<open>openSet.sort((a, b) => a.f - b.f)\<close> is a stable sort by
  \<open>f\<close>: the comparator's result for two entries with \<open>f = Infinity\<close> is \<open>NaN\<close>, which
  the sort reads as 0 (equal), and \<open>Array.prototype.sort\<close> keeps equal entries in their order;
  \<open>sort_key\<close> is a stable insertion sort. \<open>openSet.shift()\<close> takes the head.
\<close>

function astarLoop :: "World \<Rightarrow> bool list list \<Rightarrow> int \<Rightarrow> int \<Rightarrow> AStar \<Rightarrow> pos list option" where
  "astarLoop w grid endX endY st =
     (if openSet st = [] then Some []
      else
        let sorted = sort_key nf (openSet st);
            current = hd sorted
        in if nx current = endX \<and> ny current = endY
           then reconstructPath (cameFrom st) (nkey current) []
           else astarLoop w grid endX endY
                  (fold (visitNeighbor endX endY current)
                     (getNeighbors w (nx current) (ny current) grid)
                     (st\<lparr>openSet := tl sorted,
                         closedSet := insert (nkey current) (closedSet st)\<rparr>)))"
  by pat_completeness auto
termination
proof (relation "measure (\<lambda>(w, grid, endX, endY, st). workLeft w st)")
  show "wf (measure (\<lambda>(w, grid, endX, endY, st). workLeft w st))" by simp
next
  fix w :: World and grid endX endY and st :: AStar and sorted current
  assume ne: "openSet st \<noteq> []"
    and s: "sorted = sort_key nf (openSet st)" and c: "current = hd sorted"
  let ?st1 = "st\<lparr>openSet := tl sorted, closedSet := insert (nkey current) (closedSet st)\<rparr>"
  have "workLeft w (fold (visitNeighbor endX endY current)
                     (getNeighbors w (nx current) (ny current) grid) ?st1) \<le> workLeft w ?st1"
    by (rule workLeft_fold) (auto dest: getNeighbors_cells)
  also have "\<dots> < workLeft w st"
    unfolding s c using ne by (rule workLeft_pop)
  finally show "((w, grid, endX, endY,
           fold (visitNeighbor endX endY current)
             (getNeighbors w (nx current) (ny current) grid) ?st1),
          (w, grid, endX, endY, st)) \<in> measure (\<lambda>(w, grid, endX, endY, st). workLeft w st)"
    by simp
qed

declare astarLoop.simps [simp del]

text \<open>\<open>findPath(startX, startY, endX, endY)\<close>.\<close>

definition findPath :: "World \<Rightarrow> int \<Rightarrow> int \<Rightarrow> int \<Rightarrow> int \<Rightarrow> pos list option" where
  "findPath w startX startY endX endY =
     (let grid = createGrid w;
          startNode = nodeKey startX startY;
          h = enat (nat (heuristic startX startY endX endY))
      in astarLoop w grid endX endY
           \<lparr>openSet = [\<lparr>nkey = startNode, nx = startX, ny = startY, nf = h\<rparr>],
            closedSet = {},
            cameFrom = Map.empty,
            gScore = [startNode \<mapsto> 0],
            fScore = [startNode \<mapsto> h]\<rparr>)"

section \<open>World operations (core/World.js)\<close>

text \<open>The exception of reading a property of \<open>undefined\<close> or \<open>null\<close>.\<close>

datatype error = TypeError

text \<open>Grid and world coordinates. The source computes with floating-point numbers; the model
  computes with real numbers.\<close>

definition getWorldPosition :: "World \<Rightarrow> int \<Rightarrow> int \<Rightarrow> real \<times> real" where
  "getWorldPosition w gridX gridZ =
     ((real_of_int gridX - real_of_int (fst (wsize w)) / 2) * real_of_int (tileSize w),
      (real_of_int gridZ - real_of_int (snd (wsize w)) / 2) * real_of_int (tileSize w))"

definition getGridPosition :: "World \<Rightarrow> real \<Rightarrow> real \<Rightarrow> int \<times> int" where
  "getGridPosition w worldX worldZ =
     (\<lfloor>worldX / real_of_int (tileSize w) + real_of_int (fst (wsize w)) / 2\<rfloor>,
      \<lfloor>worldZ / real_of_int (tileSize w) + real_of_int (snd (wsize w)) / 2\<rfloor>)"

text \<open>The loops of \<open>addBuilding\<close> and \<open>addConstruction\<close> over the footprint, rows outside,
  marking each tile inside the world as occupied and not buildable.\<close>

definition inBounds :: "World \<Rightarrow> int \<Rightarrow> int \<Rightarrow> bool" where
  "inBounds w x y = (y \<ge> 0 \<and> y < snd (wsize w) \<and> x \<ge> 0 \<and> x < fst (wsize w))"

definition footprintCells :: "pos \<Rightarrow> footprint \<Rightarrow> pos list" where
  "footprintCells p sz =
     concat (map (\<lambda>y. map (\<lambda>x. (x, y)) [fst p..fst p + fst sz - 1]) [snd p..snd p + snd sz - 1])"

definition occupyTile :: "Building \<Rightarrow> Tile list list \<Rightarrow> pos \<Rightarrow> Tile list list" where
  "occupyTile b t c =
     t[nat (snd c) := (t ! nat (snd c))
         [nat (fst c) := (t ! nat (snd c) ! nat (fst c))\<lparr>building := Some b, buildable := False\<rparr>]]"

definition occupy :: "World \<Rightarrow> Building \<Rightarrow> Tile list list" where
  "occupy w b =
     fold (\<lambda>c t. if inBounds w (fst c) (snd c) then occupyTile b t c else t)
       (footprintCells (position b) (bsize b)) (terrain w)"

text \<open>\<open>addBuilding\<close>, \<open>addConstruction\<close>: the list and the tiles (the scene and the fog of war
  are left out).\<close>

definition addBuilding :: "World \<Rightarrow> Building \<Rightarrow> World" where
  "addBuilding w b = w\<lparr>buildings := buildings w @ [b], terrain := occupy w b\<rparr>"

definition addConstruction :: "World \<Rightarrow> nat \<Rightarrow> World" where
  "addConstruction w i =
     w\<lparr>constructions := constructions w @ [i],
       terrain := occupy w (Building.truncate (cobj w i))\<rparr>"

text \<open>\<open>completeConstruction(construction)\<close>: the construction leaves the list; the
  \<open>switch\<close> has cases for the warehouse and the woodcutter, and its \<open>default\<close> returns
  after logging an error.\<close>

definition completeConstruction :: "World \<Rightarrow> nat \<Rightarrow> World" where
  "completeConstruction w i =
     (let w1 = w\<lparr>constructions := filter (\<lambda>c. c \<noteq> i) (constructions w)\<rparr>;
          construction = cobj w i
      in case targetBuildingType construction of
           WAREHOUSE \<Rightarrow>
             addBuilding w1 (Warehouse_new (fst (position construction)) (snd (position construction)))
         | WOODCUTTER \<Rightarrow>
             addBuilding w1 (Woodcutter_new (fst (position construction)) (snd (position construction)))
         | _ \<Rightarrow> w1)"

text \<open>\<open>Construction.update()\<close>: completion once \<open>progress >= 100\<close> (the progress bar is
  left out).\<close>

definition Construction_update :: "World \<Rightarrow> nat \<Rightarrow> World" where
  "Construction_update w i =
     (if progress (cobj w i) \<ge> 100 then completeConstruction w i else w)"

text \<open>Placement mode.\<close>

definition cancelBuildingPlacement :: "World \<Rightarrow> World" where
  "cancelBuildingPlacement w =
     (if \<not> buildingPlacementMode w then w
      else w\<lparr>buildingPlacementMode := False, buildingTypeToPlace := None,
             placementPreviewMesh := False\<rparr>)"

definition startBuildingPlacement :: "World \<Rightarrow> BuildingType \<Rightarrow> World" where
  "startBuildingPlacement w buildingType =
     (let w1 = (if buildingPlacementMode w then cancelBuildingPlacement w else w)
      in w1\<lparr>buildingPlacementMode := True, buildingTypeToPlace := Some buildingType,
            placementPreviewMesh := True\<rparr>)"

text \<open>\<open>_isPlacementValid(x, y)\<close>: bounds, then every tile of the footprint, then the cost.
  \<open>buildingCosts[null]\<close> is \<open>undefined\<close>, whose \<open>Object.entries\<close> throws.\<close>

definition isPlacementValid :: "World \<Rightarrow> int \<Rightarrow> int \<Rightarrow> error + bool" where
  "isPlacementValid w x y =
     (let sz = (if buildingTypeToPlace w = Some WAREHOUSE then 2 else 1,
                if buildingTypeToPlace w = Some WAREHOUSE then 2 else 1)
      in if x < 0 \<or> y < 0 \<or> x + fst sz > fst (wsize w) \<or> y + snd sz > snd (wsize w)
         then Inr False
         else if list_ex (\<lambda>c. let tile = terrain w ! nat (snd c) ! nat (fst c)
                               in ttype tile \<noteq> GRASS \<or> building tile \<noteq> None)
                   (footprintCells (x, y) sz)
         then Inr False
         else case buildingTypeToPlace w of
                None \<Rightarrow> Inl TypeError
              | Some t \<Rightarrow>
                  if \<not> hasResources (resourceManager w) (buildingCosts t) then Inr False
                  else Inr True)"

text \<open>\<open>_updatePlacementPreview()\<close>: \<open>hit\<close> is the point where the mouse ray meets the
  terrain, if it does. The validity and the grid position are stored for the click.\<close>

definition updatePlacementPreview :: "World \<Rightarrow> (real \<times> real) option \<Rightarrow> error + World" where
  "updatePlacementPreview w hit =
     (if \<not> placementPreviewMesh w then Inr w
      else case hit of
             None \<Rightarrow> Inr w
           | Some point \<Rightarrow>
               let gridPos = getGridPosition w (fst point) (snd point)
               in case isPlacementValid w (fst gridPos) (snd gridPos) of
                    Inl e \<Rightarrow> Inl e
                  | Inr v \<Rightarrow> Inr (w\<lparr>placementValid := v, placementGridPosition := Some gridPos\<rparr>))"

text \<open>\<open>_placeBuilding()\<close>: it reads the stored validity and position. The new Construction
  gets the next unused reference.\<close>

definition placeBuilding :: "World \<Rightarrow> error + World" where
  "placeBuilding w =
     (if \<not> placementValid w \<or> placementGridPosition w = None then Inr w
      else case (placementGridPosition w, buildingTypeToPlace w) of
             (Some gp, Some t) \<Rightarrow>
               let w1 = w\<lparr>resourceManager :=
                            fst (consumeResources (resourceManager w) (buildingCosts t))\<rparr>;
                   i = nextRef w1;
                   w2 = w1\<lparr>cobj := (cobj w1)(i := Construction_new (fst gp) (snd gp) t),
                           nextRef := Suc i\<rparr>
               in Inr (cancelBuildingPlacement (addConstruction w2 i))
           | (Some gp, None) \<Rightarrow> Inl TypeError
           | (None, _) \<Rightarrow> Inr w)"

text \<open>\<open>_onClick\<close>: \<open>hitAny\<close> says whether the mouse ray meets any object of the scene.
  Outside placement mode the click only opens panels.\<close>

definition onClick :: "World \<Rightarrow> bool \<Rightarrow> error + World" where
  "onClick w hitAny =
     (if hitAny then
        (if buildingPlacementMode w then (if placementValid w then placeBuilding w else Inr w)
         else Inr w)
      else Inr w)"

section \<open>Settler, Porter, Builder (entities/Settler.js, settlers/Porter.js, settlers/Builder.js)\<close>

text \<open>
  The states are the strings the two classes assign. \<open>timers\<close> collects the callbacks handed
  to \<open>setTimeout\<close>, with their delay in milliseconds: to look for work again, to fetch again,
  and to take the next cell of the path.
\<close>

datatype SettlerState =
  IDLE | FETCHING_RESOURCE | DELIVERING_RESOURCE | MOVING_TO_CONSTRUCTION | BUILDING

datatype TimerAction = RetryFind | RetryFetch | NextPathStep

record Settler = Entity +
  isMoving :: bool
  targetPosition :: "(real \<times> real) option"
  path :: "pos list"
  state :: SettlerState
  timers :: "(nat \<times> TimerAction) list"

record Porter = Settler +
  carriedResource :: "ResourceType option"
  carriedAmount :: int
  targetConstruction :: "nat option"
  resourceToFetch :: "ResourceType option"

record Builder = Settler +
  buildTarget :: "nat option"
  buildingTime :: real
  currentBuildingTime :: real
  isBuilding :: bool

definition Porter_new :: "int \<Rightarrow> int \<Rightarrow> Porter" where
  "Porter_new x y =
     \<lparr>position = (x, y), isMoving = False, targetPosition = None, path = [], state = IDLE,
      timers = [], carriedResource = None, carriedAmount = 0, targetConstruction = None,
      resourceToFetch = None\<rparr>"

definition Builder_new :: "int \<Rightarrow> int \<Rightarrow> Builder" where
  "Builder_new x y =
     \<lparr>position = (x, y), isMoving = False, targetPosition = None, path = [], state = IDLE,
      timers = [], buildTarget = None, buildingTime = 5000, currentBuildingTime = 0,
      isBuilding = False\<rparr>"

text \<open>\<open>Settler.moveTo\<close> and \<open>Settler.followPath\<close>.\<close>

definition moveTo :: "World \<Rightarrow> pos \<Rightarrow> 'a Settler_scheme \<Rightarrow> 'a Settler_scheme" where
  "moveTo w target s =
     s\<lparr>targetPosition := Some (getWorldPosition w (fst target) (snd target)), isMoving := True\<rparr>"

definition followPath :: "pos list \<Rightarrow> 'a Settler_scheme \<Rightarrow> 'a Settler_scheme" where
  "followPath newPath s =
     (let s1 = s\<lparr>path := newPath, isMoving := False, targetPosition := None\<rparr>
      in if path s1 \<noteq> [] then s1\<lparr>timers := timers s1 @ [(50, NextPathStep)]\<rparr> else s1)"

text \<open>The distance of the proximity tests, between the world positions of two grid cells.\<close>

definition worldDistance :: "World \<Rightarrow> pos \<Rightarrow> pos \<Rightarrow> real" where
  "worldDistance w a b =
     (let pa = getWorldPosition w (fst a) (snd a);
          pb = getWorldPosition w (fst b) (snd b)
      in sqrt ((fst pa - fst pb)\<^sup>2 + (snd pa - snd pb)\<^sup>2))"

text \<open>The loop that finds the closest construction: it starts from \<open>null\<close> and
  \<open>Infinity\<close> and keeps the first construction at the least Manhattan distance.\<close>

definition manhattan :: "pos \<Rightarrow> pos \<Rightarrow> int" where
  "manhattan a b = \<bar>fst a - fst b\<bar> + \<bar>snd a - snd b\<bar>"

definition closestConstruction :: "World \<Rightarrow> pos \<Rightarrow> nat list \<Rightarrow> nat option" where
  "closestConstruction w p cs =
     fst (fold (\<lambda>i (closest, closestDistance).
                  let distance = enat (nat (manhattan p (position (cobj w i))))
                  in if distance < closestDistance then (Some i, distance)
                     else (closest, closestDistance))
            cs (None, \<infinity>))"

text \<open>The loop that picks the resource to fetch: the first required entry with
  \<open>(allocated || 0) < required\<close>.\<close>

fun firstUnderSupplied :: "Construction \<Rightarrow> requirements \<Rightarrow> ResourceType option" where
  "firstUnderSupplied c [] = None"
| "firstUnderSupplied c ((resourceType, required) # rest) =
     (if (case allocatedResources c resourceType of None \<Rightarrow> 0 | Some v \<Rightarrow> v) < required
      then Some resourceType else firstUnderSupplied c rest)"

text \<open>\<open>Porter._findConstructionInNeedOfResources\<close>. The inner \<open>None\<close> stands for
  \<open>closestConstruction === null\<close>, which the loop cannot leave for a list that is not
  empty.\<close>

definition findConstructionInNeedOfResources :: "Porter \<Rightarrow> World \<Rightarrow> Porter" where
  "findConstructionInNeedOfResources p w =
     (let cs = filter (\<lambda>i. \<not> hasAllResources (cobj w i)) (constructions w)
      in if cs \<noteq> [] then
           (case (case find (\<lambda>i. Some i = targetConstruction p) cs of
                    Some i \<Rightarrow> Some i
                  | None \<Rightarrow> closestConstruction w (position p) cs) of
              None \<Rightarrow> p
            | Some i \<Rightarrow>
                let p1 = p\<lparr>targetConstruction := Some i\<rparr>;
                    p2 = (case firstUnderSupplied (cobj w i) (requiredResources (cobj w i)) of
                            None \<Rightarrow> p1
                          | Some r \<Rightarrow> p1\<lparr>resourceToFetch := Some r\<rparr>)
                in p2\<lparr>state := FETCHING_RESOURCE\<rparr>)
         else p\<lparr>timers := timers p @ [(2000, RetryFind)]\<rparr>)"

text \<open>\<open>Porter._fetchResourceFromWarehouse\<close>. The path of the last branch is the constant
  \<open>[]\<close> in the source, so that branch is the direct route.\<close>

definition fetchResourceFromWarehouse :: "Porter \<Rightarrow> World \<Rightarrow> Porter \<times> World" where
  "fetchResourceFromWarehouse p w =
     (case find (\<lambda>b. btype b = WAREHOUSE) (buildings w) of
        None \<Rightarrow> (p\<lparr>state := IDLE\<rparr>, w)
      | Some warehouse \<Rightarrow>
          if (case targetConstruction p of None \<Rightarrow> False | Some i \<Rightarrow> hasAllResources (cobj w i))
          then (p\<lparr>carriedResource := None, carriedAmount := 0, state := IDLE\<rparr>, w)
          else if worldDistance w (position p) (interactionPoint warehouse)
                    < real_of_int (tileSize w) * 2.1
          then
            (case (case resourceToFetch p of
                     None \<Rightarrow> None
                   | Some r \<Rightarrow> if getResource (resourceManager w) r > 0 then Some r else None) of
               Some r \<Rightarrow>
                 (p\<lparr>carriedResource := Some r, carriedAmount := 1,
                    state := DELIVERING_RESOURCE,
                    targetPosition := None, isMoving := False, path := []\<rparr>,
                  w\<lparr>resourceManager := fst (removeResource (resourceManager w) r 1)\<rparr>)
             | None \<Rightarrow> (p\<lparr>timers := timers p @ [(2000, RetryFetch)]\<rparr>, w))
          else
            (moveTo w (interactionPoint warehouse) (p\<lparr>targetPosition := None\<rparr>), w))"

text \<open>\<open>Porter._deliverResourceToConstruction\<close>. A carried resource of \<open>null\<close> would write
  the property \<open>null\<close>, which is no resource type. The result is \<open>None\<close> when
  \<open>findPath\<close> does not return.\<close>

definition deliverResourceToConstruction :: "Porter \<Rightarrow> World \<Rightarrow> (Porter \<times> World) option" where
  "deliverResourceToConstruction p w =
     (case (case targetConstruction p of
              None \<Rightarrow> None
            | Some i \<Rightarrow> if i \<in> set (constructions w) then Some i else None) of
        None \<Rightarrow>
          Some (p\<lparr>carriedResource := None, carriedAmount := 0, state := IDLE\<rparr>, w)
      | Some i \<Rightarrow>
          let target = cobj w i
          in if worldDistance w (position p) (interactionPoint target)
                  < real_of_int (tileSize w) * 1.2
             then
               let delivered =
                     (case carriedResource p of
                        None \<Rightarrow> target
                      | Some r \<Rightarrow>
                          target\<lparr>allocatedResources :=
                            (allocatedResources target)
                              (r \<mapsto> (case allocatedResources target r of
                                         None \<Rightarrow> 0 | Some v \<Rightarrow> v) + carriedAmount p)\<rparr>);
                   w1 = w\<lparr>cobj := (cobj w)(i := delivered)\<rparr>;
                   p1 = p\<lparr>carriedResource := None, carriedAmount := 0,
                          targetPosition := None, isMoving := False, path := []\<rparr>
               in if \<not> hasAllResources delivered
                  then Some (p1\<lparr>state := FETCHING_RESOURCE,
                                 timers := timers p1 @ [(100, RetryFetch)]\<rparr>, w1)
                  else Some (p1\<lparr>targetConstruction := None, state := IDLE\<rparr>, w1)
             else
               (case findPath w (fst (position p)) (snd (position p))
                       (fst (interactionPoint target)) (snd (interactionPoint target)) of
                  None \<Rightarrow> None
                | Some newPath \<Rightarrow>
                    if length newPath > 0 then
                      (if length newPath > 10
                       then Some (moveTo w (interactionPoint target) (p\<lparr>targetPosition := None\<rparr>), w)
                       else Some (followPath newPath (p\<lparr>path := []\<rparr>), w))
                    else Some (moveTo w (interactionPoint target) (p\<lparr>targetPosition := None\<rparr>), w)))"

text \<open>\<open>Porter.update()\<close>. \<open>_moveToTarget\<close> moves the mesh with floating-point vector
  arithmetic and random numbers and writes fields of the settler only; it is a parameter
  here.\<close>

definition Porter_update :: "(World \<Rightarrow> Porter \<Rightarrow> Porter) \<Rightarrow> Porter \<Rightarrow> World \<Rightarrow> (Porter \<times> World) option"
where
  "Porter_update moveToTarget p w =
     (if isMoving p \<and> targetPosition p \<noteq> None then Some (moveToTarget w p, w)
      else case state p of
             IDLE \<Rightarrow> Some (findConstructionInNeedOfResources p w, w)
           | FETCHING_RESOURCE \<Rightarrow> Some (fetchResourceFromWarehouse p w)
           | DELIVERING_RESOURCE \<Rightarrow> deliverResourceToConstruction p w
           | _ \<Rightarrow> Some (p\<lparr>state := IDLE, targetPosition := None, isMoving := False, path := []\<rparr>, w))"

text \<open>The callbacks of the porter's timers.\<close>

definition Porter_timer :: "TimerAction \<Rightarrow> Porter \<Rightarrow> World \<Rightarrow> Porter \<times> World" where
  "Porter_timer action p w =
     (case action of
        RetryFind \<Rightarrow>
          (if state p = IDLE then (findConstructionInNeedOfResources p w, w) else (p, w))
      | RetryFetch \<Rightarrow>
          (if state p = FETCHING_RESOURCE then fetchResourceFromWarehouse p w else (p, w))
      | NextPathStep \<Rightarrow>
          (if path p \<noteq> [] then (moveTo w (hd (path p)) (p\<lparr>path := tl (path p)\<rparr>), w)
           else (p, w)))"

text \<open>\<open>Builder._findConstructionToBuild\<close>, \<open>_moveToConstruction\<close>, \<open>_performBuilding\<close>
  and \<open>update\<close>.\<close>

definition findConstructionToBuild :: "Builder \<Rightarrow> World \<Rightarrow> Builder" where
  "findConstructionToBuild b w =
     (let ready = filter (\<lambda>i. hasAllResources (cobj w i) \<and> progress (cobj w i) < 100)
                    (constructions w)
      in if ready \<noteq> [] then
           b\<lparr>buildTarget := closestConstruction w (position b) ready,
             state := MOVING_TO_CONSTRUCTION\<rparr>
         else b\<lparr>timers := timers b @ [(2000, RetryFind)]\<rparr>)"

definition moveToConstruction :: "Builder \<Rightarrow> World \<Rightarrow> Builder option" where
  "moveToConstruction b w =
     (case (case buildTarget b of
              None \<Rightarrow> None
            | Some i \<Rightarrow> if i \<in> set (constructions w) then Some i else None) of
        None \<Rightarrow> Some (b\<lparr>buildTarget := None, state := IDLE\<rparr>)
      | Some i \<Rightarrow>
          let target = cobj w i
          in if worldDistance w (position b) (interactionPoint target)
                  < real_of_int (tileSize w) * 2
             then Some (b\<lparr>state := BUILDING, isBuilding := True, currentBuildingTime := 0\<rparr>)
             else
               (case findPath w (fst (position b)) (snd (position b))
                       (fst (interactionPoint target)) (snd (interactionPoint target)) of
                  None \<Rightarrow> None
                | Some newPath \<Rightarrow>
                    if length newPath > 0 then
                      (if length newPath > 10
                       then Some (moveTo w (interactionPoint target) b)
                       else Some (followPath newPath b))
                    else Some (moveTo w (interactionPoint target) b)))"

definition performBuilding :: "Builder \<Rightarrow> World \<Rightarrow> Builder \<times> World" where
  "performBuilding b w =
     (case (case buildTarget b of
              None \<Rightarrow> None
            | Some i \<Rightarrow> if i \<in> set (constructions w) then Some i else None) of
        None \<Rightarrow> (b\<lparr>isBuilding := False, buildTarget := None, state := IDLE\<rparr>, w)
      | Some i \<Rightarrow>
          let b1 = b\<lparr>currentBuildingTime := currentBuildingTime b + 16.67\<rparr>
          in if currentBuildingTime b1 \<ge> buildingTime b1
             then (b1\<lparr>isBuilding := False, buildTarget := None, state := IDLE\<rparr>,
                   w\<lparr>cobj := (cobj w)(i := (cobj w i)\<lparr>progress := 100\<rparr>)\<rparr>)
             else (b1, w))"

definition Builder_update :: "(World \<Rightarrow> Builder \<Rightarrow> Builder) \<Rightarrow> Builder \<Rightarrow> World \<Rightarrow> (Builder \<times> World) option"
where
  "Builder_update moveToTarget b w =
     (if isMoving b \<and> targetPosition b \<noteq> None then Some (moveToTarget w b, w)
      else case state b of
             IDLE \<Rightarrow> Some (findConstructionToBuild b w, w)
           | MOVING_TO_CONSTRUCTION \<Rightarrow> map_option (\<lambda>b'. (b', w)) (moveToConstruction b w)
           | BUILDING \<Rightarrow> Some (performBuilding b w)
           | _ \<Rightarrow> Some (b, w))"

text \<open>\<open>allocatedResources[r] || 0\<close>.\<close>

definition allocated :: "Construction \<Rightarrow> ResourceType \<Rightarrow> int" where
  "allocated c r = (case allocatedResources c r of None \<Rightarrow> 0 | Some v \<Rightarrow> v)"

text \<open>A sequence of deliveries, one per porter of the list, and the settlers' loop of
  \<open>World.update()\<close> for a list of porters, run for a number of ticks.\<close>

fun deliverAll :: "Porter list \<Rightarrow> World \<Rightarrow> World option" where
  "deliverAll [] w = Some w"
| "deliverAll (p # ps) w =
     (case deliverResourceToConstruction p w of
        None \<Rightarrow> None
      | Some (p', w') \<Rightarrow> deliverAll ps w')"

fun updatePorters ::
  "(World \<Rightarrow> Porter \<Rightarrow> Porter) \<Rightarrow> Porter list \<Rightarrow> World \<Rightarrow> (Porter list \<times> World) option"
where
  "updatePorters mv [] w = Some ([], w)"
| "updatePorters mv (p # ps) w =
     (case Porter_update mv p w of
        None \<Rightarrow> None
      | Some (p', w') \<Rightarrow>
          (case updatePorters mv ps w' of
             None \<Rightarrow> None
           | Some (ps', w'') \<Rightarrow> Some (p' # ps', w'')))"

fun porterTicks ::
  "nat \<Rightarrow> (World \<Rightarrow> Porter \<Rightarrow> Porter) \<Rightarrow> Porter list \<Rightarrow> World \<Rightarrow> (Porter list \<times> World) option"
where
  "porterTicks 0 mv ps w = Some (ps, w)"
| "porterTicks (Suc n) mv ps w =
     (case updatePorters mv ps w of
        None \<Rightarrow> None
      | Some (ps', w') \<Rightarrow> porterTicks n mv ps' w')"

text \<open>Example worlds: a grass map of 5 by 2 tiles with a warehouse at (0, 0), a woodcutter
  construction at (3, 0) and six planks in the ledger.\<close>

definition grassTile :: Tile where
  "grassTile = \<lparr>ttype = GRASS, building = None, buildable = True\<rparr>"

definition raceWorld :: World where
  "raceWorld =
     addConstruction
       (addBuilding
          \<lparr>wsize = (5, 2), tileSize = 2,
           terrain = replicate 2 (replicate 5 grassTile),
           buildings = [], constructions = [],
           cobj = (\<lambda>i. Construction_new 3 0 WOODCUTTER), nextRef = 1,
           resourceManager = [PLANK \<mapsto> 6],
           buildingPlacementMode = False, buildingTypeToPlace = None,
           placementPreviewMesh = False, placementValid = False,
           placementGridPosition = None\<rparr>
          (Warehouse_new 0 0)) 0"

text \<open>What a delivery by porter \<open>p\<close> makes of a construction: the carried amount added to
  the entry of the carried type, everything else as before.\<close>

definition deliveredTo :: "Porter \<Rightarrow> Construction \<Rightarrow> Construction \<Rightarrow> bool" where
  "deliveredTo p c c' \<longleftrightarrow>
     (\<forall>r. allocated c' r = allocated c r + (if carriedResource p = Some r then carriedAmount p else 0))
     \<and> requiredResources c' = requiredResources c \<and> progress c' = progress c
     \<and> targetBuildingType c' = targetBuildingType c \<and> position c' = position c"

text \<open>
  The porter of the claim about fetching: in the state \<open>FETCHING_RESOURCE\<close> and not on the
  move (so that \<open>update\<close> calls \<open>_fetchResourceFromWarehouse\<close>), wanting resource
  \<open>r\<close>, within the proximity threshold of the interaction point of the warehouse, and with a
  target construction that is not fully resourced.
\<close>

definition readyToFetch :: "Porter \<Rightarrow> World \<Rightarrow> ResourceType \<Rightarrow> bool" where
  "readyToFetch p w r \<longleftrightarrow>
     state p = FETCHING_RESOURCE
     \<and> (isMoving p = False \<or> targetPosition p = None)
     \<and> resourceToFetch p = Some r
     \<and> (case find (\<lambda>b. btype b = WAREHOUSE) (buildings w) of
          None \<Rightarrow> False
        | Some warehouse \<Rightarrow>
            worldDistance w (position p) (interactionPoint warehouse)
              < real_of_int (tileSize w) * 2.1)
     \<and> (case targetConstruction p of None \<Rightarrow> True | Some i \<Rightarrow> hasAllResources (cobj w i) = False)"

text \<open>Two porters at (2, 0) of the example world, next to the warehouse and to the
  construction: one fetching planks, one carrying a plank.\<close>

definition fetcher :: Porter where
  "fetcher = (Porter_new 2 0)\<lparr>state := FETCHING_RESOURCE, targetConstruction := Some 0,
                resourceToFetch := Some PLANK\<rparr>"

definition carrier :: Porter where
  "carrier = (Porter_new 2 0)\<lparr>state := DELIVERING_RESOURCE, carriedResource := Some PLANK,
                carriedAmount := 1, targetConstruction := Some 0\<rparr>"

text \<open>The builders' part of the settlers' loop, for one builder, run for a number of
  ticks.\<close>

fun builderTicks ::
  "nat \<Rightarrow> (World \<Rightarrow> Builder \<Rightarrow> Builder) \<Rightarrow> Builder \<Rightarrow> World \<Rightarrow> (Builder \<times> World) option"
where
  "builderTicks 0 mv b w = Some (b, w)"
| "builderTicks (Suc n) mv b w =
     (case Builder_update mv b w of
        None \<Rightarrow> None
      | Some (b', w') \<Rightarrow> builderTicks n mv b' w')"

text \<open>A builder that \<open>update\<close> sends to \<open>_performBuilding\<close> with a live target: in the
  state \<open>BUILDING\<close>, not on the move, its target construction in the world's list.\<close>

definition atWork :: "Builder \<Rightarrow> World \<Rightarrow> nat \<Rightarrow> bool" where
  "atWork b w i \<longleftrightarrow>
     state b = BUILDING \<and> (isMoving b = False \<or> targetPosition b = None)
     \<and> buildTarget b = Some i \<and> i \<in> set (constructions w)"

text \<open>
  The conditions of a placement as the claim about placement words them: the footprint of a
  building type; a tile that is in bounds, grass and unoccupied; a ledger that holds every
  amount of the cost.
\<close>

definition footprintOf :: "BuildingType \<Rightarrow> footprint" where
  "footprintOf t = (if t = WAREHOUSE then 2 else 1, if t = WAREHOUSE then 2 else 1)"

definition tileFree :: "World \<Rightarrow> pos \<Rightarrow> bool" where
  "tileFree w c \<longleftrightarrow>
     inBounds w (fst c) (snd c)
     \<and> ttype (terrain w ! nat (snd c) ! nat (fst c)) = GRASS
     \<and> building (terrain w ! nat (snd c) ! nat (fst c)) = None"

definition affordable :: "ledger \<Rightarrow> BuildingType \<Rightarrow> bool" where
  "affordable rs t = list_all (\<lambda>(r, a). a \<le> getResource rs r) (buildingCosts t)"

text \<open>More example worlds: the grass map with the starting ledger; the same with the
  warehouse at (0, 0); the latter in placement mode for a woodcutter, and for a warehouse;
  the map with a sawmill construction at (3, 0) whose progress is 100; the map with a
  fully resourced woodcutter construction and a builder at work next to it.\<close>

definition grassWorld :: World where
  "grassWorld =
     \<lparr>wsize = (5, 2), tileSize = 2,
      terrain = replicate 2 (replicate 5 grassTile),
      buildings = [], constructions = [],
      cobj = (\<lambda>i. Construction_new 0 0 WOODCUTTER), nextRef = 0,
      resourceManager = initial_resources,
      buildingPlacementMode = False, buildingTypeToPlace = None,
      placementPreviewMesh = False, placementValid = False,
      placementGridPosition = None\<rparr>"

definition baseWorld :: World where
  "baseWorld = addBuilding grassWorld (Warehouse_new 0 0)"

definition placingWorld :: World where
  "placingWorld = startBuildingPlacement baseWorld WOODCUTTER"

definition warehousePlacingWorld :: World where
  "warehousePlacingWorld = startBuildingPlacement baseWorld WAREHOUSE"

definition sawmillWorld :: World where
  "sawmillWorld =
     addConstruction
       (addBuilding
          (grassWorld\<lparr>cobj := (\<lambda>i. (Construction_new 3 0 SAWMILL)
                                   \<lparr>allocatedResources := [PLANK \<mapsto> 5, STONE \<mapsto> 5],
                                    progress := 100\<rparr>),
                      nextRef := 1\<rparr>)
          (Warehouse_new 0 0)) 0"

definition readyWorld :: World where
  "readyWorld =
     raceWorld\<lparr>cobj := (cobj raceWorld)
       (0 := (Construction_new 3 0 WOODCUTTER)\<lparr>allocatedResources := [PLANK \<mapsto> 5]\<rparr>)\<rparr>"

definition worker :: Builder where
  "worker = (Builder_new 2 0)\<lparr>state := BUILDING, buildTarget := Some 0, isBuilding := True\<rparr>"

section \<open>Histories of a builder\<close>

text \<open>
  \<open>_moveToTarget\<close>, the parameter of \<open>update\<close>, writes the position, \<open>isMoving\<close>,
  \<open>targetPosition\<close>, the stuck counter and the mesh, and sets timers; it writes neither the
  state nor the builder's target, building time and accumulated time.
\<close>

definition keepsTask :: "(World \<Rightarrow> Builder \<Rightarrow> Builder) \<Rightarrow> bool" where
  "keepsTask mv \<longleftrightarrow>
     (\<forall>w b. state (mv w b) = state b \<and> buildTarget (mv w b) = buildTarget b
         \<and> buildingTime (mv w b) = buildingTime b
         \<and> currentBuildingTime (mv w b) = currentBuildingTime b)"

text \<open>The callbacks of the builder's timers: to look for a construction again
  (\<open>_findConstructionToBuild\<close>), and to take the next cell of the path
  (\<open>followPath\<close>). A builder sets no timer to fetch.\<close>

definition Builder_timer :: "TimerAction \<Rightarrow> Builder \<Rightarrow> World \<Rightarrow> Builder" where
  "Builder_timer action b w =
     (case action of
        RetryFind \<Rightarrow> (if state b = IDLE then findConstructionToBuild b w else b)
      | RetryFetch \<Rightarrow> b
      | NextPathStep \<Rightarrow>
          (if path b \<noteq> [] then moveTo w (hd (path b)) (b\<lparr>path := tl (path b)\<rparr>) else b))"

text \<open>
  What happens to a builder: a frame, in which \<open>World.update()\<close> calls its \<open>update()\<close>, or
  a timer that fires. Each event comes with the world as it is at that moment, so that
  porters, clicks, other builders and completions may change the world between two events.
\<close>

datatype BuilderEvent = Frame World | Timeout TimerAction World

fun builderStep ::
  "(World \<Rightarrow> Builder \<Rightarrow> Builder) \<Rightarrow> BuilderEvent \<Rightarrow> Builder \<Rightarrow> Builder option"
where
  "builderStep mv (Frame w) b = map_option fst (Builder_update mv b w)"
| "builderStep mv (Timeout action w) b = Some (Builder_timer action b w)"

text \<open>A frame in which \<open>update()\<close> runs \<open>_performBuilding\<close> on a target that is in the
  world's list.\<close>

fun working :: "BuilderEvent \<Rightarrow> Builder \<Rightarrow> bool" where
  "working (Frame w) b = (case buildTarget b of None \<Rightarrow> False | Some i \<Rightarrow> atWork b w i)"
| "working (Timeout action w) b = False"

text \<open>
  The history of a builder: the events in their order. Next to the builder the run keeps a
  count that is not in the source: the number of working frames since the builder last
  entered the state \<open>BUILDING\<close>.
\<close>

fun builderRun ::
  "(World \<Rightarrow> Builder \<Rightarrow> Builder) \<Rightarrow> BuilderEvent list \<Rightarrow> Builder \<times> nat
     \<Rightarrow> (Builder \<times> nat) option"
where
  "builderRun mv [] s = Some s"
| "builderRun mv (e # es) (b, n) =
     (case builderStep mv e b of
        None \<Rightarrow> None
      | Some b' \<Rightarrow>
          builderRun mv es
            (b', if state b = BUILDING then (if working e b then Suc n else n) else 0))"

text \<open>The invariant of a builder's history: the building time is the 5000 of the
  constructor, and in the state \<open>BUILDING\<close> the accumulated time is 16.67 for each working
  frame and the building time is not yet reached.\<close>

definition onDuty :: "Builder \<times> nat \<Rightarrow> bool" where
  "onDuty s \<longleftrightarrow>
     buildingTime (fst s) = 5000
     \<and> (state (fst s) = BUILDING \<longrightarrow>
          currentBuildingTime (fst s) = 16.67 * real (snd s) \<and> snd s < 300)"

text \<open>The example world with the fully resourced construction, once a builder has set its
  progress to 100.\<close>

definition built :: World where
  "built = readyWorld\<lparr>cobj := (cobj readyWorld)(0 := (cobj readyWorld 0)\<lparr>progress := 100\<rparr>)\<rparr>"

section \<open>Deliveries\<close>

text \<open>
  The test of \<open>_deliverResourceToConstruction\<close> before it books: the porter's target is
  in the world's list and the porter is within 1.2 tiles of its interaction point. What a
  delivery by porter \<open>p\<close> books on construction \<open>i\<close> for the resource \<open>r\<close>: the carried
  amount when the test holds for \<open>i\<close> and \<open>r\<close> is the carried type, nothing otherwise.
\<close>

definition arrived :: "Porter \<Rightarrow> World \<Rightarrow> nat \<Rightarrow> bool" where
  "arrived p w i \<longleftrightarrow>
     targetConstruction p = Some i \<and> i \<in> set (constructions w)
     \<and> worldDistance w (position p) (interactionPoint (cobj w i))
           < real_of_int (tileSize w) * 1.2"

definition booked :: "Porter \<Rightarrow> World \<Rightarrow> nat \<Rightarrow> ResourceType \<Rightarrow> int" where
  "booked p w i r =
     (if arrived p w i \<and> carriedResource p = Some r then carriedAmount p else 0)"

section \<open>A second placement session\<close>

text \<open>
  The events of two placements in the example world, as the window's listeners receive them.
  \<open>placedOnce\<close>: in placement mode for a woodcutter the mouse moves over the tile (3, 0) and
  a click follows. \<open>secondSession\<close>: the build menu's item is clicked again, which calls
  \<open>startBuildingPlacement\<close>. \<open>placedTwice\<close>: the same click reaches \<open>_onClick\<close>, the
  listener on the window, before any frame or mouse move updates the preview.
  \<open>secondCheck\<close> is what \<open>_isPlacementValid\<close> returns for the tile (3, 0) at that moment.
\<close>

definition placedOnce :: "error + World" where
  "placedOnce =
     (case updatePlacementPreview placingWorld (Some (1, -1)) of
        Inl e \<Rightarrow> Inl e
      | Inr w1 \<Rightarrow> onClick w1 True)"

definition secondSession :: "error + World" where
  "secondSession =
     (case placedOnce of
        Inl e \<Rightarrow> Inl e
      | Inr w2 \<Rightarrow> Inr (startBuildingPlacement w2 WOODCUTTER))"

definition secondCheck :: "error + bool" where
  "secondCheck = (case secondSession of Inl e \<Rightarrow> Inl e | Inr w3 \<Rightarrow> isPlacementValid w3 3 0)"

definition placedTwice :: "error + World" where
  "placedTwice = (case secondSession of Inl e \<Rightarrow> Inl e | Inr w3 \<Rightarrow> onClick w3 True)"

section \<open>PathFinder: what a path is\<close>

text \<open>
  Two cells are 4-adjacent when they differ by one step north, east, south or west. A walk
  from a cell is a list of cells, each 4-adjacent to the one before it (the first to the
  starting cell) and each passable by \<open>_isPassable\<close>; it ends at its last cell, or at the
  starting cell when it is empty. The starting cell itself need not be passable.
\<close>

definition adjacent :: "pos \<Rightarrow> pos \<Rightarrow> bool" where
  "adjacent a b \<longleftrightarrow> \<bar>fst a - fst b\<bar> + \<bar>snd a - snd b\<bar> = 1"

fun walk :: "World \<Rightarrow> pos \<Rightarrow> pos list \<Rightarrow> bool" where
  "walk w a [] = True"
| "walk w a (c # cs) = (adjacent a c \<and> isPassable w (fst c) (snd c) \<and> walk w c cs)"

text \<open>The bounding rectangle of two cells, and the case that no obstacle lies between them:
  every cell of the rectangle other than the first cell is passable.\<close>

definition inRect :: "pos \<Rightarrow> pos \<Rightarrow> pos \<Rightarrow> bool" where
  "inRect a b c \<longleftrightarrow>
     min (fst a) (fst b) \<le> fst c \<and> fst c \<le> max (fst a) (fst b)
     \<and> min (snd a) (snd b) \<le> snd c \<and> snd c \<le> max (snd a) (snd b)"

definition rectCells :: "pos \<Rightarrow> pos \<Rightarrow> pos list" where
  "rectCells a b =
     concat (map (\<lambda>y. map (\<lambda>x. (x, y)) [min (fst a) (fst b)..max (fst a) (fst b)])
               [min (snd a) (snd b)..max (snd a) (snd b)])"

definition unobstructed :: "World \<Rightarrow> pos \<Rightarrow> pos \<Rightarrow> bool" where
  "unobstructed w a b =
     list_all (\<lambda>c. c = a \<or> isPassable w (fst c) (snd c)) (rectCells a b)"

text \<open>The terrain array has the dimensions of \<open>size\<close>, as \<open>_initTerrain\<close> builds it; then
  no read of \<open>terrain[y][x]\<close> after a bounds check is out of range.\<close>

definition terrainMatchesSize :: "World \<Rightarrow> bool" where
  "terrainMatchesSize w \<longleftrightarrow>
     int (length (terrain w)) = snd (wsize w)
     \<and> list_all (\<lambda>row. int (length row) = fst (wsize w)) (terrain w)"

text \<open>A map of 3 by 3 tiles with water at (1, 0) and (1, 1).\<close>

definition waterTile :: Tile where
  "waterTile = \<lparr>ttype = WATER, building = None, buildable = False\<rparr>"

definition pondWorld :: World where
  "pondWorld =
     \<lparr>wsize = (3, 3), tileSize = 2,
      terrain = [[grassTile, waterTile, grassTile],
                 [grassTile, waterTile, grassTile],
                 [grassTile, grassTile, grassTile]],
      buildings = [], constructions = [],
      cobj = (\<lambda>i. Construction_new 0 0 WOODCUTTER), nextRef = 0,
      resourceManager = initial_resources,
      buildingPlacementMode = False, buildingTypeToPlace = None,
      placementPreviewMesh = False, placementValid = False,
      placementGridPosition = None\<rparr>"

section \<open>PathFinder: the invariant of the search\<close>

text \<open>
  The keys of the open set, the cells seen so far, the edges of the grid as
  \<open>_getNeighbors\<close> gives them, and routes along these edges.
\<close>

definition okeys :: "AStar \<Rightarrow> pos set" where
  "okeys st = nkey ` set (openSet st)"

definition seen :: "AStar \<Rightarrow> pos set" where
  "seen st = closedSet st \<union> okeys st"

definition edge :: "World \<Rightarrow> bool list list \<Rightarrow> pos \<Rightarrow> pos \<Rightarrow> bool" where
  "edge w grid a b \<longleftrightarrow> b \<in> set (getNeighbors w (fst a) (snd a) grid)"

fun route :: "World \<Rightarrow> bool list list \<Rightarrow> pos \<Rightarrow> pos list \<Rightarrow> bool" where
  "route w grid a [] = True"
| "route w grid a (c # cs) = (edge w grid a c \<and> route w grid c cs)"

text \<open>
  The invariant, for start \<open>s\<close>, goal \<open>gl\<close> and a depth \<open>d\<close> of every cell seen (the
  number of \<open>cameFrom\<close> steps back to the start). \<open>inv_core\<close>: entries of the open set
  carry their own key and \<open>f = Infinity\<close>; keys are distinct and not closed; the start is
  closed and has no predecessor; exactly the other seen cells have a predecessor, which is
  closed, has an edge to the cell and is one less deep; every score read through
  \<open>|| Infinity\<close> is \<open>Infinity\<close>; the goal is not closed; the open set is in order of depth.
  \<open>inv_layer\<close>, for the cell \<open>cur\<close> taken last and the set \<open>S\<close> of its neighbours
  already visited: closed cells are at most as deep as \<open>cur\<close>, open ones at least as deep
  and at most one deeper; the neighbours of every other closed cell, and those in \<open>S\<close>,
  are seen and at most one deeper than the cell.
\<close>

definition inv_core ::
  "World \<Rightarrow> bool list list \<Rightarrow> pos \<Rightarrow> pos \<Rightarrow> (pos \<Rightarrow> nat) \<Rightarrow> AStar \<Rightarrow> bool" where
  "inv_core w grid s gl d st \<longleftrightarrow>
     (\<forall>n \<in> set (openSet st). nkey n = (nx n, ny n) \<and> nf n = \<infinity>)
   \<and> distinct (map nkey (openSet st))
   \<and> okeys st \<inter> closedSet st = {}
   \<and> s \<in> closedSet st \<and> cameFrom st s = None \<and> d s = 0
   \<and> dom (cameFrom st) = seen st - {s}
   \<and> (\<forall>k p. cameFrom st k = Some p \<longrightarrow> p \<in> closedSet st \<and> edge w grid p k \<and> d k = Suc (d p))
   \<and> (\<forall>k. orInfinity (gScore st k) = \<infinity>)
   \<and> gl \<notin> closedSet st
   \<and> sorted (map (\<lambda>n. d (nkey n)) (openSet st))"

definition inv_layer ::
  "World \<Rightarrow> bool list list \<Rightarrow> (pos \<Rightarrow> nat) \<Rightarrow> pos \<Rightarrow> pos set \<Rightarrow> AStar \<Rightarrow> bool" where
  "inv_layer w grid d cur S st \<longleftrightarrow>
     cur \<in> closedSet st
   \<and> (\<forall>c \<in> closedSet st. d c \<le> d cur)
   \<and> (\<forall>n \<in> set (openSet st). d cur \<le> d (nkey n) \<and> d (nkey n) \<le> Suc (d cur))
   \<and> (\<forall>c \<in> closedSet st. c \<noteq> cur \<longrightarrow>
         (\<forall>b. edge w grid c b \<longrightarrow> b \<in> seen st \<and> d b \<le> Suc (d c)))
   \<and> (\<forall>b \<in> S. b \<in> seen st \<and> d b \<le> Suc (d cur))"

text \<open>The state after a neighbour that was not seen has been pushed.\<close>

definition pushed :: "OpenNode \<Rightarrow> pos \<Rightarrow> AStar \<Rightarrow> AStar" where
  "pushed c b st =
     st\<lparr>openSet := openSet st @ [\<lparr>nkey = b, nx = fst b, ny = snd b, nf = \<infinity>\<rparr>],
        cameFrom := (cameFrom st)(b \<mapsto> nkey c),
        gScore := (gScore st)(b \<mapsto> \<infinity>),
        fScore := (fScore st)(b \<mapsto> \<infinity>)\<rparr>"

text \<open>What \<open>findPath\<close> owes: a shortest route to the goal, or the empty list when no route
  leads there.\<close>

definition outcome :: "World \<Rightarrow> bool list list \<Rightarrow> pos \<Rightarrow> pos \<Rightarrow> pos list \<Rightarrow> bool" where
  "outcome w grid s gl p \<longleftrightarrow>
     (route w grid s p \<and> last (s # p) = gl
        \<and> (\<forall>r. route w grid s r \<and> last (s # r) = gl \<longrightarrow> length p \<le> length r))
     \<or> (p = [] \<and> (\<forall>r. route w grid s r \<longrightarrow> last (s # r) \<noteq> gl))"


section \<open>ResourceManager: properties\<close>

lemma getResource_eq: "getResource rs t = (case rs t of None \<Rightarrow> 0 | Some v \<Rightarrow> v)"
  by (simp add: getResource_def split: option.splits)

lemma falsy_iff: "falsy (rs t) \<longleftrightarrow> getResource rs t = 0"
  by (cases "rs t") (simp_all add: getResource_eq)

lemma entry_ok_iff:
  "\<not> (falsy (rs t) \<or> (case rs t of None \<Rightarrow> False | Some v \<Rightarrow> v < a))
     \<longleftrightarrow> getResource rs t \<noteq> 0 \<and> a \<le> getResource rs t"
  by (cases "rs t") (auto simp: getResource_eq)

lemma hasResources_iff:
  "hasResources rs reqs \<longleftrightarrow> (\<forall>(t, a) \<in> set reqs. getResource rs t \<noteq> 0 \<and> a \<le> getResource rs t)"
proof (induction reqs)
  case Nil
  show ?case by simp
next
  case (Cons e reqs)
  obtain t a where e: "e = (t, a)" by (cases e)
  show ?case using Cons.IH entry_ok_iff [of rs t a] unfolding e by auto
qed

lemma decrementAll_other: "t \<notin> fst ` set reqs \<Longrightarrow> decrementAll rs reqs t = rs t"
  by (induction rs reqs rule: decrementAll.induct) auto

lemma decrementAll_entry:
  "distinct (map fst reqs) \<Longrightarrow> (t, a) \<in> set reqs \<Longrightarrow>
   decrementAll rs reqs t = map_option (\<lambda>v. v - a) (rs t)"
proof (induction reqs arbitrary: rs)
  case Nil
  then show ?case by simp
next
  case (Cons e rest)
  obtain t' a' where e: "e = (t', a')" by (cases e)
  show ?case
  proof (cases "t' = t")
    case True
    from Cons.prems e True have "a' = a" by (auto simp: image_iff)
    moreover from Cons.prems e True have "t \<notin> fst ` set rest" by simp
    ultimately show ?thesis using True e by (simp add: decrementAll_other)
  next
    case False
    from Cons.prems e False have d: "distinct (map fst rest)" and m: "(t, a) \<in> set rest"
      by auto
    have "decrementAll rs (e # rest) t
            = decrementAll (rs(t' := map_option (\<lambda>v. v - a') (rs t'))) rest t"
      by (simp add: e)
    also have "\<dots> = map_option (\<lambda>v. v - a) ((rs(t' := map_option (\<lambda>v. v - a') (rs t'))) t)"
      by (rule Cons.IH [OF d m])
    also have "\<dots> = map_option (\<lambda>v. v - a) (rs t)"
      using False by simp
    finally show ?thesis .
  qed
qed

lemma getResource_decrementAll:
  assumes "distinct (map fst reqs)" and "(t, a) \<in> set reqs" and "getResource rs t \<noteq> 0"
  shows "getResource (decrementAll rs reqs) t = getResource rs t - a"
  using assms by (cases "rs t") (simp_all add: getResource_eq decrementAll_entry)

text \<open>
  C1: \<open>consumeResources\<close> is atomic. As the code has it: when every required type has a
  count that is not zero and is at least the required amount, every entry is decremented by its
  amount, the other counts stay, and the result is true; otherwise the result is false and the
  ledger is the one before the call. The scenario: from the starting ledger (\<open>plank = 10\<close>),
  consuming \<open>{plank: 5}\<close> succeeds and leaves 5, and consuming \<open>{plank: 6}\<close> then fails and
  leaves 5.
\<close>

theorem consumeResources_atomic:
  assumes "distinct (map fst reqs)"
  shows "(if (\<forall>(t, a) \<in> set reqs. getResource rs t \<noteq> 0 \<and> a \<le> getResource rs t)
          then snd (consumeResources rs reqs) = True
             \<and> (\<forall>(t, a) \<in> set reqs.
                   getResource (fst (consumeResources rs reqs)) t = getResource rs t - a)
             \<and> (\<forall>t. t \<notin> fst ` set reqs \<longrightarrow> fst (consumeResources rs reqs) t = rs t)
          else consumeResources rs reqs = (rs, False))
       \<and> consumeResources initial_resources [(PLANK, 5)] = (initial_resources(PLANK \<mapsto> 5), True)
       \<and> consumeResources (initial_resources(PLANK \<mapsto> 5)) [(PLANK, 6)]
           = (initial_resources(PLANK \<mapsto> 5), False)"
proof -
  have general: "if (\<forall>(t, a) \<in> set reqs. getResource rs t \<noteq> 0 \<and> a \<le> getResource rs t)
          then snd (consumeResources rs reqs) = True
             \<and> (\<forall>(t, a) \<in> set reqs.
                   getResource (fst (consumeResources rs reqs)) t = getResource rs t - a)
             \<and> (\<forall>t. t \<notin> fst ` set reqs \<longrightarrow> fst (consumeResources rs reqs) t = rs t)
          else consumeResources rs reqs = (rs, False)"
  proof (cases "hasResources rs reqs")
    case True
    then have ok: "\<forall>(t, a) \<in> set reqs. getResource rs t \<noteq> 0 \<and> a \<le> getResource rs t"
      by (simp add: hasResources_iff)
    have c: "consumeResources rs reqs = (decrementAll rs reqs, True)"
      using True by (simp add: consumeResources_def)
    have "\<forall>(t, a) \<in> set reqs. getResource (decrementAll rs reqs) t = getResource rs t - a"
      using ok assms by (auto intro: getResource_decrementAll)
    then show ?thesis using ok c by (simp add: decrementAll_other)
  next
    case False
    then have "\<not> (\<forall>(t, a) \<in> set reqs. getResource rs t \<noteq> 0 \<and> a \<le> getResource rs t)"
      by (simp add: hasResources_iff)
    moreover have "consumeResources rs reqs = (rs, False)"
      using False by (simp add: consumeResources_def)
    ultimately show ?thesis by presburger
  qed
  have s1: "consumeResources initial_resources [(PLANK, 5)] = (initial_resources(PLANK \<mapsto> 5), True)"
    by (simp add: consumeResources_def initial_resources_def)
  have s2: "consumeResources (initial_resources(PLANK \<mapsto> 5)) [(PLANK, 6)]
           = (initial_resources(PLANK \<mapsto> 5), False)"
    by (simp add: consumeResources_def)
  show ?thesis using general s1 s2 by blast
qed

theorem consumeResources_atomic_witness:
  "distinct (map fst [(PLANK, 5::int), (STONE, 10)])
   \<and> consumeResources initial_resources [(PLANK, 5), (STONE, 10)]
       = (initial_resources(PLANK \<mapsto> 5, STONE \<mapsto> 0), True)
   \<and> getResource (fst (consumeResources initial_resources [(PLANK, 5), (STONE, 10)])) PLANK = 5"
proof -
  have d: "distinct (map fst [(PLANK, 5::int), (STONE, 10)])" by simp
  have e: "consumeResources initial_resources [(PLANK, 5), (STONE, 10)]
       = (initial_resources(PLANK \<mapsto> 5, STONE \<mapsto> 0), True)"
    by (simp add: consumeResources_def initial_resources_def fun_upd_twist)
  from consumeResources_atomic [OF d, of initial_resources]
  have "getResource (fst (consumeResources initial_resources [(PLANK, 5), (STONE, 10)])) PLANK = 5"
    by (simp add: getResource_eq initial_resources_def)
  with d e show ?thesis by blast
qed

text \<open>
  C1 as stated fails where a count is zero: the iron count of the starting ledger is 0, which
  is at least a required amount of 0, yet consuming \<open>{iron: 0}\<close> returns false.
\<close>

theorem consumeResources_zero_counterexample:
  "0 \<le> getResource initial_resources IRON
   \<and> consumeResources initial_resources [(IRON, 0)] = (initial_resources, False)"
  by (simp add: consumeResources_def initial_resources_def getResource_eq)

lemma nonneg_initial: "nonneg initial_resources"
  by (simp add: nonneg_def getResource_eq initial_resources_def)

lemma nonneg_addResource:
  assumes "0 \<le> n" and "nonneg rs"
  shows "nonneg (fst (addResource rs t n))"
  unfolding nonneg_def
proof
  fix u
  have "0 \<le> getResource rs u" using assms(2) by (simp add: nonneg_def)
  then show "0 \<le> getResource (fst (addResource rs t n)) u"
    using assms(1) by (cases "rs t") (auto simp: addResource_def getResource_eq Let_def)
qed

lemma removeResource_rejects:
  "getResource rs t < n \<Longrightarrow> removeResource rs t n = (rs, False)"
  by (cases "rs t") (auto simp: removeResource_def getResource_eq)

lemma nonneg_removeResource:
  assumes "nonneg rs"
  shows "nonneg (fst (removeResource rs t n))"
  unfolding nonneg_def
proof
  fix u
  have "0 \<le> getResource rs u" using assms by (simp add: nonneg_def)
  then show "0 \<le> getResource (fst (removeResource rs t n)) u"
    by (cases "rs t") (auto simp: removeResource_def getResource_eq)
qed

lemma nonneg_consumeResources:
  assumes "distinct (map fst reqs)" and "nonneg rs"
  shows "nonneg (fst (consumeResources rs reqs))"
proof (cases "hasResources rs reqs")
  case False
  then show ?thesis using assms(2) by (simp add: consumeResources_def)
next
  case True
  then have ok: "\<forall>(t, a) \<in> set reqs. getResource rs t \<noteq> 0 \<and> a \<le> getResource rs t"
    by (simp add: hasResources_iff)
  have "0 \<le> getResource (decrementAll rs reqs) u" for u
  proof (cases "u \<in> fst ` set reqs")
    case True
    then obtain a where m: "(u, a) \<in> set reqs" by auto
    with ok have "getResource rs u \<noteq> 0" and "a \<le> getResource rs u" by auto
    then show ?thesis using getResource_decrementAll [OF assms(1) m] by simp
  next
    case False
    have "0 \<le> getResource rs u" using assms(2) by (simp add: nonneg_def)
    then show ?thesis using False by (simp add: getResource_eq decrementAll_other)
  qed
  then show ?thesis using True by (simp add: consumeResources_def nonneg_def)
qed

lemma nonneg_apply_op: "valid_op op \<Longrightarrow> nonneg rs \<Longrightarrow> nonneg (apply_op rs op)"
  by (cases op)
     (simp_all add: nonneg_addResource nonneg_removeResource nonneg_consumeResources)

lemma nonneg_run_ops: "list_all valid_op ops \<Longrightarrow> nonneg rs \<Longrightarrow> nonneg (run_ops rs ops)"
  unfolding run_ops_def
  by (induction ops arbitrary: rs) (simp_all add: nonneg_apply_op)

text \<open>
  C2: after every prefix of a sequence of \<open>add\<close>/\<open>remove\<close>/\<open>consumeAll\<close> calls with
  non-negative amounts from the starting ledger, every count read by \<open>getResource\<close> is at least
  0; and at every such point \<open>removeResource(type, n)\<close> with \<open>n\<close> above the count returns false
  and leaves the ledger as it was.
\<close>

theorem ledger_never_negative:
  assumes "list_all valid_op ops"
  shows "0 \<le> getResource (run_ops initial_resources (take k ops)) t
       \<and> (getResource (run_ops initial_resources (take k ops)) t < n \<longrightarrow>
            removeResource (run_ops initial_resources (take k ops)) t n
              = (run_ops initial_resources (take k ops), False))"
proof -
  have "list_all valid_op (take k ops)"
    using assms by (auto simp: list_all_iff dest: in_set_takeD)
  then have "nonneg (run_ops initial_resources (take k ops))"
    by (rule nonneg_run_ops) (rule nonneg_initial)
  then show ?thesis by (simp add: nonneg_def removeResource_rejects)
qed

theorem ledger_never_negative_witness:
  "list_all valid_op [Add WOOD 5, Remove PLANK 3, ConsumeAll [(PLANK, 5), (STONE, 10)]]
   \<and> getResource (run_ops initial_resources
        (take 3 [Add WOOD 5, Remove PLANK 3, ConsumeAll [(PLANK, 5), (STONE, 10)]])) PLANK = 2
   \<and> removeResource (run_ops initial_resources
        (take 3 [Add WOOD 5, Remove PLANK 3, ConsumeAll [(PLANK, 5), (STONE, 10)]])) PLANK 3
       = (run_ops initial_resources
           (take 3 [Add WOOD 5, Remove PLANK 3, ConsumeAll [(PLANK, 5), (STONE, 10)]]), False)"
proof -
  have v: "list_all valid_op [Add WOOD 5, Remove PLANK 3, ConsumeAll [(PLANK, 5), (STONE, 10)]]"
    by simp
  have g: "getResource (run_ops initial_resources
        (take 3 [Add WOOD 5, Remove PLANK 3, ConsumeAll [(PLANK, 5), (STONE, 10)]])) PLANK = 2"
    by (simp add: run_ops_def addResource_def removeResource_def consumeResources_def
          initial_resources_def getResource_eq)
  from ledger_never_negative [OF v, of 3 PLANK 3] g v show ?thesis by simp
qed

section \<open>Interaction points: properties\<close>

lemma Woodcutter_interactionPoint:
  "interactionPoint (Woodcutter_new x y)
     = designatedPoint WOODCUTTER (position (Woodcutter_new x y)) (bsize (Woodcutter_new x y))"
  by (simp add: Woodcutter_new_def Building_new_def defineInteractionPoint_def designatedPoint_def)

lemma Construction_interactionPoint:
  "interactionPoint (Construction_new x y target)
     = designatedPoint target (position (Construction_new x y target))
         (bsize (Construction_new x y target))"
  by (simp add: Construction_new_def Building_new_def defineInteractionPoint_def
        designatedPoint_def Let_def)

text \<open>
  C4, at a warehouse: the warehouse built at (249, 249) has the footprint 2 by 2 and keeps the
  interaction point (249, 249), computed while its size was still 1 by 1; the bottom right
  corner of its footprint is (250, 250).
\<close>

theorem Warehouse_interactionPoint_stale:
  "position (Warehouse_new 249 249) = (249, 249)
   \<and> bsize (Warehouse_new 249 249) = (2, 2)
   \<and> interactionPoint (Warehouse_new 249 249) = (249, 249)
   \<and> designatedPoint WAREHOUSE (position (Warehouse_new 249 249)) (bsize (Warehouse_new 249 249))
       = (250, 250)"
  by (simp add: Warehouse_new_def Building_new_def defineInteractionPoint_def designatedPoint_def)

section \<open>Porter: properties\<close>

lemma sqrt_lt_iff: "0 \<le> t \<Longrightarrow> sqrt s < t \<longleftrightarrow> s < t\<^sup>2"
  by (metis real_sqrt_less_iff real_sqrt_abs abs_of_nonneg)

lemma raceWorld_simps:
  "buildings raceWorld = [Warehouse_new 0 0]" "constructions raceWorld = [0]"
  "cobj raceWorld = (\<lambda>i. Construction_new 3 0 WOODCUTTER)" "tileSize raceWorld = 2"
  "wsize raceWorld = (5, 2)" "resourceManager raceWorld = [PLANK \<mapsto> 6]"
  by (simp_all add: raceWorld_def addConstruction_def addBuilding_def fun_eq_iff)

lemma deliver_cases:
  assumes "deliverResourceToConstruction p w = Some (p', w')"
  shows "w' = w
       \<or> (\<exists>i c'. targetConstruction p = Some i \<and> i \<in> set (constructions w)
            \<and> deliveredTo p (cobj w i) c' \<and> w' = w\<lparr>cobj := (cobj w)(i := c')\<rparr>)"
proof (cases "targetConstruction p")
  case None
  then show ?thesis using assms by (simp add: deliverResourceToConstruction_def)
next
  case (Some i)
  show ?thesis
  proof (cases "i \<in> set (constructions w)
               \<and> worldDistance w (position p) (interactionPoint (cobj w i))
                    < real_of_int (tileSize w) * 1.2")
    case False
    then show ?thesis using assms Some
      by (auto simp: deliverResourceToConstruction_def Let_def split: option.splits if_splits)
  next
    case True
    define c' where "c' = (case carriedResource p of
                        None \<Rightarrow> cobj w i
                      | Some r \<Rightarrow>
                          (cobj w i)\<lparr>allocatedResources :=
                            (allocatedResources (cobj w i))
                              (r \<mapsto> (case allocatedResources (cobj w i) r of
                                         None \<Rightarrow> 0 | Some v \<Rightarrow> v) + carriedAmount p)\<rparr>)"
    have "w' = w\<lparr>cobj := (cobj w)(i := c')\<rparr>"
      using assms Some True unfolding c'_def
      by (simp add: deliverResourceToConstruction_def Let_def split: if_splits)
    moreover have "deliveredTo p (cobj w i) c'"
      unfolding c'_def by (cases "carriedResource p") (auto simp: deliveredTo_def allocated_def)
    ultimately show ?thesis using Some True by blast
  qed
qed

lemma deliver_required:
  assumes "deliverResourceToConstruction p w = Some (p', w')"
  shows "requiredResources (cobj w' j) = requiredResources (cobj w j)"
  using deliver_cases [OF assms] by (auto simp: deliveredTo_def)

lemma deliver_progress:
  assumes "deliverResourceToConstruction p w = Some (p', w')"
  shows "progress (cobj w' j) = progress (cobj w j)"
  using deliver_cases [OF assms] by (auto simp: deliveredTo_def)

text \<open>
  C3 as stated fails: two porters at (2, 0) serve the woodcutter construction at (3, 0), which
  requires 5 planks, from a ledger with 6 planks. Both fetch before either delivers, in each
  of three rounds, and after seven ticks of the settlers' loop the construction has 6 planks
  allocated.
\<close>

lemma seven: "(7::nat) = Suc (Suc (Suc (Suc (Suc (Suc (Suc 0))))))"
  by simp

theorem allocation_exceeds_required_counterexample:
  "(case porterTicks 7 (\<lambda>w p. p) [Porter_new 2 0, Porter_new 2 0] raceWorld of
      None \<Rightarrow> None
    | Some (ps, w') \<Rightarrow> Some (allocated (cobj w' 0) PLANK, requiredResources (cobj w' 0)))
   = Some (6, [(PLANK, 5)])"
  unfolding seven
  by (simp add: raceWorld_def addConstruction_def addBuilding_def Warehouse_new_def Building_new_def
        defineInteractionPoint_def Construction_new_def Porter_new_def Porter_update_def
        findConstructionInNeedOfResources_def fetchResourceFromWarehouse_def
        deliverResourceToConstruction_def hasAllResources_def closestConstruction_def manhattan_def
        worldDistance_def getWorldPosition_def sqrt_lt_iff allocated_def getResource_eq
        removeResource_def power2_eq_square Let_def)

lemma fetch_none:
  assumes "readyToFetch p w r" and "getResource (resourceManager w) r = 0"
  shows "fetchResourceFromWarehouse p w = (p\<lparr>timers := timers p @ [(2000, RetryFetch)]\<rparr>, w)"
  using assms
  by (auto simp: readyToFetch_def fetchResourceFromWarehouse_def split: option.splits)

lemma removeResource_one:
  assumes "0 < getResource rs r"
  shows "getResource (fst (removeResource rs r 1)) r = getResource rs r - 1"
    and "r' \<noteq> r \<Longrightarrow> fst (removeResource rs r 1) r' = rs r'"
  using assms by (cases "rs r"; simp add: removeResource_def getResource_eq)+

lemma fetch_some:
  assumes "readyToFetch p w r" and "0 < getResource (resourceManager w) r"
  shows "fetchResourceFromWarehouse p w =
           (p\<lparr>carriedResource := Some r, carriedAmount := 1, state := DELIVERING_RESOURCE,
              targetPosition := None, isMoving := False, path := []\<rparr>,
            w\<lparr>resourceManager := fst (removeResource (resourceManager w) r 1)\<rparr>)"
  using assms
  by (auto simp: readyToFetch_def fetchResourceFromWarehouse_def split: option.splits)

lemma update_fetch:
  assumes "readyToFetch p w r"
  shows "Porter_update mv p w = Some (fetchResourceFromWarehouse p w)"
    and "Porter_timer RetryFetch p w = fetchResourceFromWarehouse p w"
  using assms by (auto simp: readyToFetch_def Porter_update_def Porter_timer_def)

lemma readyToFetch_timers:
  "readyToFetch (p\<lparr>timers := ts\<rparr>) w r = readyToFetch p w r"
  by (simp add: readyToFetch_def split: option.splits)

text \<open>
  C9: a porter in the state \<open>FETCHING_RESOURCE\<close>, carrying nothing, within the proximity
  threshold of the warehouse interaction point, whose target construction still lacks
  resources. While the ledger's count of the wanted type is zero, its update leaves it in
  \<open>FETCHING_RESOURCE\<close> carrying nothing (a retry is scheduled, nothing else changes). At a
  later attempt (the next update or the retry timer) in a world where the count is positive,
  exactly one unit of that type leaves the ledger, no other count changes, and the porter is in
  \<open>DELIVERING_RESOURCE\<close> carrying one unit of it.
\<close>

theorem porter_fetch_retry:
  assumes "readyToFetch p w r" and "getResource (resourceManager w) r = 0"
    and "carriedResource p = None" and "carriedAmount p = 0"
    and "readyToFetch p w2 r" and "0 < getResource (resourceManager w2) r"
    and "p1 = p\<lparr>timers := timers p @ [(2000, RetryFetch)]\<rparr>"
  shows "Porter_update mv p w = Some (p1, w)
       \<and> state p1 = FETCHING_RESOURCE
       \<and> carriedResource p1 = None \<and> carriedAmount p1 = 0
       \<and> (\<exists>p2 w3. Porter_update mv p1 w2 = Some (p2, w3)
            \<and> Porter_timer RetryFetch p1 w2 = (p2, w3)
            \<and> state p2 = DELIVERING_RESOURCE
            \<and> carriedResource p2 = Some r \<and> carriedAmount p2 = 1
            \<and> getResource (resourceManager w3) r = getResource (resourceManager w2) r - 1
            \<and> (\<forall>r'. r' \<noteq> r \<longrightarrow> resourceManager w3 r' = resourceManager w2 r'))"
proof -
  have a: "Porter_update mv p w = Some (p1, w)"
    using update_fetch(1) [OF assms(1)] fetch_none [OF assms(1,2)] assms(7) by simp
  have s: "state p1 = FETCHING_RESOURCE"
    using assms(1,7) by (simp add: readyToFetch_def)
  have c: "carriedResource p1 = None \<and> carriedAmount p1 = 0"
    using assms(3,4,7) by simp
  have r1: "readyToFetch p1 w2 r"
    using assms(5,7) by (simp add: readyToFetch_timers)
  note f = fetch_some [OF r1 assms(6)]
  have "Porter_update mv p1 w2 = Some (fetchResourceFromWarehouse p1 w2)"
    and "Porter_timer RetryFetch p1 w2 = fetchResourceFromWarehouse p1 w2"
    using update_fetch [OF r1] by simp_all
  then show ?thesis
    using a s c f assms(7) removeResource_one [OF assms(6)] by simp
qed

lemma fetcher_ready: "readyToFetch fetcher (raceWorld\<lparr>resourceManager := rs\<rparr>) PLANK"
  by (simp add: readyToFetch_def fetcher_def Porter_new_def raceWorld_simps Warehouse_new_def
        Building_new_def defineInteractionPoint_def worldDistance_def getWorldPosition_def
        sqrt_lt_iff hasAllResources_def Construction_new_def power2_eq_square)

theorem porter_fetch_retry_witness:
  "readyToFetch fetcher (raceWorld\<lparr>resourceManager := [PLANK \<mapsto> 0]\<rparr>) PLANK
   \<and> getResource [PLANK \<mapsto> 0] PLANK = 0
   \<and> carriedResource fetcher = None \<and> carriedAmount fetcher = 0
   \<and> readyToFetch fetcher
        (raceWorld\<lparr>resourceManager := fst (addResource [PLANK \<mapsto> 0] PLANK 1)\<rparr>) PLANK
   \<and> 0 < getResource (fst (addResource [PLANK \<mapsto> 0] PLANK 1)) PLANK
   \<and> Porter_update (\<lambda>w p. p) fetcher (raceWorld\<lparr>resourceManager := [PLANK \<mapsto> 0]\<rparr>)
       = Some (fetcher\<lparr>timers := [(2000, RetryFetch)]\<rparr>,
               raceWorld\<lparr>resourceManager := [PLANK \<mapsto> 0]\<rparr>)
   \<and> (\<exists>p2 w3. Porter_update (\<lambda>w p. p) (fetcher\<lparr>timers := [(2000, RetryFetch)]\<rparr>)
                  (raceWorld\<lparr>resourceManager := fst (addResource [PLANK \<mapsto> 0] PLANK 1)\<rparr>)
                = Some (p2, w3)
            \<and> state p2 = DELIVERING_RESOURCE \<and> carriedResource p2 = Some PLANK
            \<and> carriedAmount p2 = 1 \<and> getResource (resourceManager w3) PLANK = 0)"
proof -
  let ?w = "raceWorld\<lparr>resourceManager := [PLANK \<mapsto> 0]\<rparr>"
  let ?w2 = "raceWorld\<lparr>resourceManager := fst (addResource [PLANK \<mapsto> 0] PLANK 1)\<rparr>"
  have h1: "readyToFetch fetcher ?w PLANK" and h3: "readyToFetch fetcher ?w2 PLANK"
    by (rule fetcher_ready)+
  have h2: "getResource (resourceManager ?w) PLANK = 0" by (simp add: getResource_eq)
  have h4: "0 < getResource (resourceManager ?w2) PLANK"
    by (simp add: getResource_eq addResource_def)
  have c: "carriedResource fetcher = None" "carriedAmount fetcher = 0"
    by (simp_all add: fetcher_def Porter_new_def)
  have t: "timers fetcher = []" by (simp add: fetcher_def Porter_new_def)
  have h5: "fetcher\<lparr>timers := [(2000, RetryFetch)]\<rparr>
              = fetcher\<lparr>timers := timers fetcher @ [(2000, RetryFetch)]\<rparr>"
    by (simp add: t)
  from porter_fetch_retry [OF h1 h2 c h3 h4 h5, of "\<lambda>w p. p"] h1 h3 h2 h4 c
  show ?thesis by (auto simp: getResource_eq addResource_def)
qed

section \<open>Builder and construction: properties\<close>

lemma performBuilding_progress:
  assumes "performBuilding b w = (b', w')" and "progress (cobj w' i) \<noteq> progress (cobj w i)"
  shows "buildTarget b = Some i \<and> i \<in> set (constructions w)
       \<and> buildingTime b \<le> currentBuildingTime b + 16.67 \<and> progress (cobj w' i) = 100"
  using assms
  by (auto simp: performBuilding_def Let_def split: option.splits if_splits)

lemma Builder_update_progress:
  assumes "Builder_update mv b w = Some (b', w')"
    and "progress (cobj w' i) \<noteq> progress (cobj w i)"
  shows "atWork b w i \<and> buildingTime b \<le> currentBuildingTime b + 16.67
       \<and> progress (cobj w' i) = 100"
proof (cases "isMoving b \<and> targetPosition b \<noteq> None")
  case True
  then have "w' = w" using assms(1) by (simp add: Builder_update_def)
  then show ?thesis using assms(2) by simp
next
  case False
  then have idle: "isMoving b = False \<or> targetPosition b = None" by blast
  have "state b = BUILDING \<and> performBuilding b w = (b', w')"
    using assms False
    by (cases "state b") (auto simp: Builder_update_def)
  then show ?thesis
    using performBuilding_progress [of b w b' w' i] assms(2) idle by (simp add: atWork_def)
qed

lemma fetch_cobj: "cobj (snd (fetchResourceFromWarehouse p w)) = cobj w"
  by (simp add: fetchResourceFromWarehouse_def split: option.splits)

lemma Porter_update_progress:
  assumes "Porter_update mv p w = Some (p', w')"
  shows "progress (cobj w' i) = progress (cobj w i)"
proof (cases "isMoving p \<and> targetPosition p \<noteq> None")
  case True
  then show ?thesis using assms by (simp add: Porter_update_def)
next
  case False
  show ?thesis
  proof (cases "state p")
    case FETCHING_RESOURCE
    then have "w' = snd (fetchResourceFromWarehouse p w)"
      using assms False by (auto simp: Porter_update_def)
    then show ?thesis by (simp add: fetch_cobj)
  next
    case DELIVERING_RESOURCE
    then have "deliverResourceToConstruction p w = Some (p', w')"
      using assms False by (auto simp: Porter_update_def)
    then show ?thesis by (rule deliver_progress)
  qed (use assms False in \<open>auto simp: Porter_update_def\<close>)
qed

lemma completeConstruction_cobj: "cobj (completeConstruction w i) = cobj w"
  by (cases "targetBuildingType (cobj w i)")
     (simp_all add: completeConstruction_def addBuilding_def Let_def)

lemma Construction_update_cobj: "cobj (Construction_update w j) = cobj w"
  by (simp add: Construction_update_def completeConstruction_cobj)

lemma cancel_fields:
  "cobj (cancelBuildingPlacement w) = cobj w"
  "constructions (cancelBuildingPlacement w) = constructions w"
  "resourceManager (cancelBuildingPlacement w) = resourceManager w"
  "terrain (cancelBuildingPlacement w) = terrain w"
  "buildings (cancelBuildingPlacement w) = buildings w"
  by (simp_all add: cancelBuildingPlacement_def)

lemma placeBuilding_cobj:
  assumes "placeBuilding w = Inr w'"
  shows "w' = w \<or> (\<exists>x y t. cobj w' = (cobj w)(nextRef w := Construction_new x y t))"
proof (cases "\<not> placementValid w \<or> placementGridPosition w = None")
  case True
  then show ?thesis using assms by (auto simp: placeBuilding_def)
next
  case False
  then obtain gp where gp: "placementGridPosition w = Some gp" by auto
  from assms False gp obtain t where t: "buildingTypeToPlace w = Some t"
    by (cases "buildingTypeToPlace w") (auto simp: placeBuilding_def)
  have "cobj w' = (cobj w)(nextRef w := Construction_new (fst gp) (snd gp) t)"
    using assms False gp t
    by (auto simp: placeBuilding_def Let_def cancel_fields addConstruction_def)
  then show ?thesis by blast
qed

lemma Construction_new_fields:
  "position (Construction_new x y t) = (x, y)"
  "targetBuildingType (Construction_new x y t) = t"
  "bsize (Construction_new x y t) = footprintOf t"
  "progress (Construction_new x y t) = 0"
  "requiredResources (Construction_new x y t) = buildingCosts t"
  by (simp_all add: Construction_new_def Building_new_def defineInteractionPoint_def Let_def
        footprintOf_def)

lemma Construction_new_progress: "progress (Construction_new x y t) = 0"
  by (simp add: Construction_new_def defineInteractionPoint_def Let_def)

lemma placeBuilding_progress:
  assumes "placeBuilding w = Inr w'" and "progress (cobj w' i) \<noteq> progress (cobj w i)"
  shows "i = nextRef w \<and> progress (cobj w' i) = 0"
  using placeBuilding_cobj [OF assms(1)] assms(2)
  by (auto simp: Construction_new_progress split: if_splits)

lemma onClick_progress:
  assumes "onClick w h = Inr w'" and "progress (cobj w' i) \<noteq> progress (cobj w i)"
  shows "i = nextRef w \<and> progress (cobj w' i) = 0"
  using assms placeBuilding_progress [of w w' i]
  by (auto simp: onClick_def split: if_splits)

lemma builder_tick_working:
  assumes "atWork b w i" and "currentBuildingTime b + 16.67 < buildingTime b"
  shows "Builder_update mv b w
           = Some (b\<lparr>currentBuildingTime := currentBuildingTime b + 16.67\<rparr>, w)"
  using assms by (auto simp: atWork_def Builder_update_def performBuilding_def Let_def)

lemma builder_tick_done:
  assumes "atWork b w i" and "buildingTime b \<le> currentBuildingTime b + 16.67"
  shows "Builder_update mv b w
           = Some (b\<lparr>currentBuildingTime := currentBuildingTime b + 16.67,
                     isBuilding := False, buildTarget := None, state := IDLE\<rparr>,
                   w\<lparr>cobj := (cobj w)(i := (cobj w i)\<lparr>progress := 100\<rparr>)\<rparr>)"
  using assms by (auto simp: atWork_def Builder_update_def performBuilding_def Let_def)

lemma builderTicks_working:
  "atWork b w i \<Longrightarrow> currentBuildingTime b + 16.67 * real k < buildingTime b \<Longrightarrow>
   builderTicks k mv b w
     = Some (b\<lparr>currentBuildingTime := currentBuildingTime b + 16.67 * real k\<rparr>, w)"
proof (induction k arbitrary: b)
  case 0
  then show ?case by simp
next
  case (Suc k)
  let ?b1 = "b\<lparr>currentBuildingTime := currentBuildingTime b + 16.67\<rparr>"
  have e: "(16.67::real) * real (Suc k) = 16.67 + 16.67 * real k"
    by (simp add: field_simps)
  have nn: "0 \<le> (16.67::real) * real k" by simp
  have lt: "currentBuildingTime b + 16.67 < buildingTime b"
    using Suc.prems(2) e nn by linarith
  have step: "Builder_update mv b w = Some (?b1, w)"
    by (rule builder_tick_working [OF Suc.prems(1) lt])
  have w1: "atWork ?b1 w i" using Suc.prems(1) by (simp add: atWork_def)
  have "currentBuildingTime b + 16.67 + 16.67 * real k < buildingTime b"
    using Suc.prems(2) e by linarith
  then have t1: "currentBuildingTime ?b1 + 16.67 * real k < buildingTime ?b1"
    by simp
  have "builderTicks (Suc k) mv b w = builderTicks k mv ?b1 w"
    using step by simp
  also have "\<dots> = Some (?b1\<lparr>currentBuildingTime := currentBuildingTime ?b1 + 16.67 * real k\<rparr>, w)"
    by (rule Suc.IH [OF w1 t1])
  also have "\<dots> = Some (b\<lparr>currentBuildingTime :=
                             currentBuildingTime b + 16.67 * real (Suc k)\<rparr>, w)"
    unfolding e by (simp add: add.assoc)
  finally show ?case .
qed

lemma builderTicks_add:
  "builderTicks (m + n) mv b w =
     (case builderTicks m mv b w of None \<Rightarrow> None | Some (b', w') \<Rightarrow> builderTicks n mv b' w')"
  by (induction m arbitrary: b w) (auto split: option.splits)

lemma Construction_update_complete:
  assumes "100 \<le> progress (cobj w i)"
  shows "i \<notin> set (constructions (Construction_update w i))"
    and "targetBuildingType (cobj w i) = WAREHOUSE \<or> targetBuildingType (cobj w i) = WOODCUTTER \<Longrightarrow>
         \<exists>bd. buildings (Construction_update w i) = buildings w @ [bd]
            \<and> btype bd = targetBuildingType (cobj w i) \<and> position bd = position (cobj w i)"
    and "targetBuildingType (cobj w i) \<noteq> WAREHOUSE \<Longrightarrow> targetBuildingType (cobj w i) \<noteq> WOODCUTTER \<Longrightarrow>
         buildings (Construction_update w i) = buildings w"
  using assms
  by (cases "targetBuildingType (cobj w i)";
      simp add: Construction_update_def completeConstruction_def addBuilding_def Let_def
        Warehouse_new_def Woodcutter_new_def Building_new_def defineInteractionPoint_def)+

lemma findConstructionToBuild_fields:
  "buildingTime (findConstructionToBuild b w) = buildingTime b"
  "currentBuildingTime (findConstructionToBuild b w) = currentBuildingTime b"
  "state (findConstructionToBuild b w) = state b
   \<or> state (findConstructionToBuild b w) = MOVING_TO_CONSTRUCTION"
  by (simp_all add: findConstructionToBuild_def Let_def)

lemma moveToConstruction_fields:
  assumes "moveToConstruction b w = Some b'"
  shows "buildingTime b' = buildingTime b"
    and "state b' = BUILDING \<Longrightarrow> state b \<noteq> BUILDING \<Longrightarrow> currentBuildingTime b' = 0"
    and "state b' = BUILDING \<Longrightarrow> state b = BUILDING \<Longrightarrow>
           currentBuildingTime b' = currentBuildingTime b \<or> currentBuildingTime b' = 0"
  using assms
  by (auto simp: moveToConstruction_def Let_def moveTo_def followPath_def
        split: option.splits if_splits)

lemma performBuilding_fields:
  assumes "performBuilding b w = (b', w')"
  shows "buildingTime b' = buildingTime b"
    and "state b' = BUILDING \<Longrightarrow>
           (\<exists>i. buildTarget b = Some i \<and> i \<in> set (constructions w))
           \<and> currentBuildingTime b' = currentBuildingTime b + 16.67
           \<and> currentBuildingTime b' < buildingTime b \<and> state b = BUILDING"
  using assms
  by (auto simp: performBuilding_def Let_def split: option.splits if_splits)

lemma sixteen: "16.67 * real (Suc n) < (5000::real) \<Longrightarrow> Suc n < 300"
proof (rule ccontr)
  assume a: "16.67 * real (Suc n) < (5000::real)" and "\<not> Suc n < 300"
  then have "300 \<le> real (Suc n)" by simp
  then have "(16.67::real) * 300 \<le> 16.67 * real (Suc n)" by (intro mult_left_mono) simp_all
  with a show False by simp
qed

lemma onDuty_step:
  assumes k: "keepsTask mv" and i: "onDuty (b, n)" and s: "builderStep mv e b = Some b'"
  shows "onDuty (b', if state b = BUILDING then (if working e b then Suc n else n) else 0)"
proof (cases e)
  case (Timeout a w)
  then have b': "b' = Builder_timer a b w" using s by simp
  show ?thesis
  proof (cases a)
    case RetryFind
    then show ?thesis
      using i b' Timeout findConstructionToBuild_fields [of b w]
      by (auto simp: onDuty_def Builder_timer_def)
  next
    case RetryFetch
    then show ?thesis using i b' Timeout by (auto simp: onDuty_def Builder_timer_def)
  next
    case NextPathStep
    then show ?thesis using i b' Timeout by (auto simp: onDuty_def Builder_timer_def moveTo_def)
  qed
next
  case (Frame w)
  then obtain w' where u: "Builder_update mv b w = Some (b', w')" using s by auto
  show ?thesis
  proof (cases "isMoving b \<and> targetPosition b \<noteq> None")
    case True
    then have b': "b' = mv w b" using u by (auto simp: Builder_update_def)
    have nw: "\<not> working e b" using True Frame by (auto simp: atWork_def split: option.splits)
    from k have "state b' = state b" "buildingTime b' = buildingTime b"
      "currentBuildingTime b' = currentBuildingTime b"
      unfolding b' keepsTask_def by blast+
    then show ?thesis using i nw by (auto simp: onDuty_def)
  next
    case False
    then have idle: "isMoving b = False \<or> targetPosition b = None" by blast
    show ?thesis
    proof (cases "state b")
      case IDLE
      then have "b' = findConstructionToBuild b w" using u False by (auto simp: Builder_update_def)
      then show ?thesis using i IDLE findConstructionToBuild_fields [of b w]
        by (auto simp: onDuty_def)
    next
      case MOVING_TO_CONSTRUCTION
      then have m: "moveToConstruction b w = Some b'"
        using u False by (auto simp: Builder_update_def)
      show ?thesis
        using i MOVING_TO_CONSTRUCTION moveToConstruction_fields(1,2) [OF m]
        by (auto simp: onDuty_def)
    next
      case BUILDING
      then have p: "performBuilding b w = (b', w')"
        using u False by (auto simp: Builder_update_def)
      note f = performBuilding_fields [OF p]
      show ?thesis
      proof (cases "state b' = BUILDING")
        case False
        then show ?thesis using i f(1) by (simp add: onDuty_def)
      next
        case True
        from f(2) [OF True] obtain j where j: "buildTarget b = Some j" "j \<in> set (constructions w)"
          and c: "currentBuildingTime b' = currentBuildingTime b + 16.67"
          and l: "currentBuildingTime b' < buildingTime b" by blast
        have wk: "working e b" using Frame j BUILDING idle by (simp add: atWork_def)
        from i BUILDING have c0: "currentBuildingTime b = 16.67 * real n" and bt: "buildingTime b = 5000"
          by (simp_all add: onDuty_def)
        have e: "currentBuildingTime b' = 16.67 * real (Suc n)"
          using c c0 by (simp add: field_simps)
        then have "Suc n < 300" using l bt sixteen by simp
        then show ?thesis using e f(1) bt BUILDING wk by (simp add: onDuty_def)
      qed
    next
      case FETCHING_RESOURCE
      then have "b' = b" using u False by (auto simp: Builder_update_def)
      then show ?thesis using i FETCHING_RESOURCE by (simp add: onDuty_def)
    next
      case DELIVERING_RESOURCE
      then have "b' = b" using u False by (auto simp: Builder_update_def)
      then show ?thesis using i DELIVERING_RESOURCE by (simp add: onDuty_def)
    qed
  qed
qed

lemma onDuty_run:
  "keepsTask mv \<Longrightarrow> onDuty s \<Longrightarrow> builderRun mv es s = Some s' \<Longrightarrow> onDuty s'"
proof (induction es arbitrary: s)
  case Nil
  then show ?case by simp
next
  case (Cons e es)
  obtain b n where s: "s = (b, n)" by (cases s)
  from Cons.prems(3) s obtain b' where
    st: "builderStep mv e b = Some b'"
    and r: "builderRun mv es (b', if state b = BUILDING then (if working e b then Suc n else n) else 0)
              = Some s'"
    by (auto split: option.splits)
  from Cons.prems(2) s have "onDuty (b, n)" by simp
  from onDuty_step [OF Cons.prems(1) this st]
  show ?case using Cons.IH [OF Cons.prems(1) _ r] by blast
qed

lemma onDuty_new: "onDuty (Builder_new x y, 0)"
  by (simp add: onDuty_def Builder_new_def)

lemma last_tick:
  assumes "onDuty (b, n)" and "buildingTime b \<le> currentBuildingTime b + 16.67"
    and "state b = BUILDING"
  shows "n = 299" and "currentBuildingTime b < 5000"
proof -
  from assms(1,3) have c: "currentBuildingTime b = 16.67 * real n" and n: "n < 300"
    and bt: "buildingTime b = 5000" by (simp_all add: onDuty_def)
  have "\<not> n < 299"
  proof
    assume "n < 299"
    then have "real n \<le> 298" by simp
    then have "(16.67::real) * real n \<le> 16.67 * 298" by (intro mult_left_mono) simp_all
    with assms(2) c bt show False by simp
  qed
  with n show "n = 299" by simp
  then show "currentBuildingTime b < 5000" using c by simp
qed

lemma builderRun_append:
  "builderRun mv (es @ es') s
     = (case builderRun mv es s of None \<Rightarrow> None | Some s' \<Rightarrow> builderRun mv es' s')"
proof (induction es arbitrary: s)
  case Nil
  show ?case by simp
next
  case (Cons e es)
  obtain b n where s: "s = (b, n)" by (cases s)
  show ?case unfolding s by (simp add: Cons.IH split: option.splits)
qed

lemma builderRun_working:
  "atWork b w i \<Longrightarrow> currentBuildingTime b + 16.67 * real k < buildingTime b \<Longrightarrow>
   builderRun mv (replicate k (Frame w)) (b, n)
     = Some (b\<lparr>currentBuildingTime := currentBuildingTime b + 16.67 * real k\<rparr>, n + k)"
proof (induction k arbitrary: b n)
  case 0
  then show ?case by simp
next
  case (Suc k)
  let ?b1 = "b\<lparr>currentBuildingTime := currentBuildingTime b + 16.67\<rparr>"
  have e: "(16.67::real) * real (Suc k) = 16.67 + 16.67 * real k"
    by (simp add: field_simps)
  have nn: "0 \<le> (16.67::real) * real k" by simp
  have lt: "currentBuildingTime b + 16.67 < buildingTime b"
    using Suc.prems(2) e nn by linarith
  have step: "Builder_update mv b w = Some (?b1, w)"
    by (rule builder_tick_working [OF Suc.prems(1) lt])
  have w1: "atWork ?b1 w i" using Suc.prems(1) by (simp add: atWork_def)
  have "currentBuildingTime b + 16.67 + 16.67 * real k < buildingTime b"
    using Suc.prems(2) e by linarith
  then have t1: "currentBuildingTime ?b1 + 16.67 * real k < buildingTime ?b1"
    by simp
  have sb: "state b = BUILDING" "working (Frame w) b"
    using Suc.prems(1) by (auto simp: atWork_def)
  have "builderRun mv (replicate (Suc k) (Frame w)) (b, n)
          = builderRun mv (replicate k (Frame w)) (?b1, Suc n)"
    using step sb by simp
  also have "\<dots> = Some (?b1\<lparr>currentBuildingTime := currentBuildingTime ?b1 + 16.67 * real k\<rparr>,
                        Suc n + k)"
    by (rule Suc.IH [OF w1 t1])
  also have "\<dots> = Some (b\<lparr>currentBuildingTime :=
                             currentBuildingTime b + 16.67 * real (Suc k)\<rparr>, n + Suc k)"
    unfolding e by (simp add: add.assoc)
  finally show ?case .
qed

lemma session_rest:
  assumes d: "onDuty (b, n)" and a: "atWork b w i"
  shows "n < 300"
    and "n + k < 300 \<Longrightarrow> \<exists>b1. builderTicks k mv b w = Some (b1, w) \<and> atWork b1 w i"
    and "\<exists>b2. builderTicks (300 - n) mv b w
                = Some (b2, w\<lparr>cobj := (cobj w)(i := (cobj w i)\<lparr>progress := 100\<rparr>)\<rparr>)
              \<and> state b2 = IDLE \<and> buildTarget b2 = None"
proof -
  from a have sb: "state b = BUILDING" by (simp add: atWork_def)
  with d have c: "currentBuildingTime b = 16.67 * real n" and n: "n < 300"
    and bt: "buildingTime b = 5000" by (simp_all add: onDuty_def)
  show "n < 300" by (rule n)
  have early: "builderTicks k mv b w
        = Some (b\<lparr>currentBuildingTime := currentBuildingTime b + 16.67 * real k\<rparr>, w)"
    if "n + k < 300" for k
  proof -
    from that have "real (n + k) \<le> 299" by simp
    then have "(16.67::real) * real (n + k) \<le> 16.67 * 299" by (intro mult_left_mono) simp_all
    then have "currentBuildingTime b + 16.67 * real k < buildingTime b"
      using c bt by (simp add: field_simps)
    from builderTicks_working [OF a this] show ?thesis .
  qed
  show "\<exists>b1. builderTicks k mv b w = Some (b1, w) \<and> atWork b1 w i" if "n + k < 300"
    using early [OF that] a by (simp add: atWork_def)
  let ?k = "299 - n"
  let ?b = "b\<lparr>currentBuildingTime := currentBuildingTime b + 16.67 * real ?k\<rparr>"
  have k: "n + ?k < 300" "n + ?k = 299" using n by simp_all
  have w1: "atWork ?b w i" using a by (simp add: atWork_def)
  have "currentBuildingTime ?b = 16.67 * real (n + ?k)"
    using c by (simp add: field_simps)
  then have "currentBuildingTime ?b = 16.67 * 299" unfolding k(2) by simp
  then have dn: "buildingTime ?b \<le> currentBuildingTime ?b + 16.67" using bt by simp
  have "300 - n = ?k + 1" using n by simp
  then have "builderTicks (300 - n) mv b w = builderTicks 1 mv ?b w"
    using early [OF k(1)] by (simp only: builderTicks_add) simp
  also have "\<dots> = Some (?b\<lparr>currentBuildingTime := currentBuildingTime ?b + 16.67,
                     isBuilding := False, buildTarget := None, state := IDLE\<rparr>,
                   w\<lparr>cobj := (cobj w)(i := (cobj w i)\<lparr>progress := 100\<rparr>)\<rparr>)"
    using builder_tick_done [OF w1 dn, of mv] by simp
  finally show "\<exists>b2. builderTicks (300 - n) mv b w
                = Some (b2, w\<lparr>cobj := (cobj w)(i := (cobj w i)\<lparr>progress := 100\<rparr>)\<rparr>)
              \<and> state b2 = IDLE \<and> buildTarget b2 = None"
    by simp
qed

lemma Porter_timer_progress: "progress (cobj (snd (Porter_timer a p w)) i) = progress (cobj w i)"
  by (cases a) (simp_all add: Porter_timer_def fetch_cobj)

lemma start_work:
  assumes "state b = MOVING_TO_CONSTRUCTION" and "isMoving b = False \<or> targetPosition b = None"
    and "buildTarget b = Some i" and "i \<in> set (constructions w)"
    and "worldDistance w (position b) (interactionPoint (cobj w i)) < real_of_int (tileSize w) * 2"
  shows "Builder_update mv b w
           = Some (b\<lparr>state := BUILDING, isBuilding := True, currentBuildingTime := 0\<rparr>, w)"
    and "atWork (b\<lparr>state := BUILDING, isBuilding := True, currentBuildingTime := 0\<rparr>) w i"
  using assms by (auto simp: Builder_update_def moveToConstruction_def atWork_def)

text \<open>
  C5, as the code has it. The builder \<open>b\<close> is any builder of the program: the result of a
  history \<open>es\<close> of frames and timers that starts with \<open>new Builder(world, x, y)\<close>; \<open>n\<close>
  counts its working frames since it last entered the state \<open>BUILDING\<close>.

  Progress: an update of the builder changes the progress of a construction only when the
  builder is in the state \<open>BUILDING\<close>, not on the move, the construction is its target and
  is in the world's list, and this is the 300th working frame since it entered that state:
  the building time is the fixed 5000, the time accumulated so far is below it, and the
  progress becomes 100. A builder at work leaves every progress as it is until its 300th
  working frame, which sets the progress of its target to 100. A builder enters the state
  \<open>BUILDING\<close>, with no working frame counted, by an update in the state
  \<open>MOVING_TO_CONSTRUCTION\<close> within two tiles of the interaction point of its target. Updates
  and timers of porters, updates of constructions, and the preview, the start and the
  cancellation of a placement change no progress, and a click changes none but that of the
  construction it creates, which is 0.

  Completion: the update of a construction whose progress is at least 100 takes it out of
  the world's list; for the target types warehouse and woodcutter a building of that type is
  added at its grid position; for every other target type no building is added.
\<close>

theorem construction_progress_and_completion:
  assumes "keepsTask mv" and "builderRun mv es (Builder_new x y, 0) = Some (b, n)"
  shows
   "(Builder_update mv b w = Some (b', w') \<and> progress (cobj w' i) \<noteq> progress (cobj w i) \<longrightarrow>
        atWork b w i \<and> n = 299 \<and> buildingTime b = 5000 \<and> currentBuildingTime b < 5000
        \<and> progress (cobj w' i) = 100)
    \<and> (atWork b w i \<longrightarrow>
          n < 300
          \<and> (\<forall>k. n + k < 300 \<longrightarrow>
                (\<exists>b1. builderTicks k mv b w = Some (b1, w) \<and> atWork b1 w i))
          \<and> (\<exists>b2. builderTicks (300 - n) mv b w
                     = Some (b2, w\<lparr>cobj := (cobj w)(i := (cobj w i)\<lparr>progress := 100\<rparr>)\<rparr>)
                   \<and> state b2 = IDLE \<and> buildTarget b2 = None))
    \<and> (state b = MOVING_TO_CONSTRUCTION \<and> (isMoving b = False \<or> targetPosition b = None)
        \<and> buildTarget b = Some i \<and> i \<in> set (constructions w)
        \<and> worldDistance w (position b) (interactionPoint (cobj w i)) < real_of_int (tileSize w) * 2
        \<longrightarrow> (\<exists>b1. Builder_update mv b w = Some (b1, w) \<and> atWork b1 w i
                \<and> builderRun mv (es @ [Frame w]) (Builder_new x y, 0) = Some (b1, 0)))
    \<and> (Porter_update pmv p w = Some (p', wp) \<longrightarrow> progress (cobj wp i) = progress (cobj w i))
    \<and> progress (cobj (snd (Porter_timer a p w)) i) = progress (cobj w i)
    \<and> progress (cobj (Construction_update w j) i) = progress (cobj w i)
    \<and> (onClick w h = Inr wq \<and> progress (cobj wq i) \<noteq> progress (cobj w i) \<longrightarrow>
          i = nextRef w \<and> progress (cobj wq i) = 0)
    \<and> (updatePlacementPreview w hit = Inr wu \<longrightarrow> progress (cobj wu i) = progress (cobj w i))
    \<and> progress (cobj (startBuildingPlacement w t) i) = progress (cobj w i)
    \<and> progress (cobj (cancelBuildingPlacement w) i) = progress (cobj w i)
    \<and> (100 \<le> progress (cobj w i) \<longrightarrow>
          i \<notin> set (constructions (Construction_update w i))
          \<and> (targetBuildingType (cobj w i) = WAREHOUSE \<or> targetBuildingType (cobj w i) = WOODCUTTER \<longrightarrow>
               (\<exists>bd. buildings (Construction_update w i) = buildings w @ [bd]
                  \<and> btype bd = targetBuildingType (cobj w i) \<and> position bd = position (cobj w i)))
          \<and> (targetBuildingType (cobj w i) \<noteq> WAREHOUSE \<and> targetBuildingType (cobj w i) \<noteq> WOODCUTTER \<longrightarrow>
               buildings (Construction_update w i) = buildings w))"
proof -
  have d: "onDuty (b, n)"
    by (rule onDuty_run [OF assms(1) onDuty_new assms(2)])
  have a1: "Builder_update mv b w = Some (b', w') \<and> progress (cobj w' i) \<noteq> progress (cobj w i) \<longrightarrow>
        atWork b w i \<and> n = 299 \<and> buildingTime b = 5000 \<and> currentBuildingTime b < 5000
        \<and> progress (cobj w' i) = 100"
  proof
    assume h: "Builder_update mv b w = Some (b', w') \<and> progress (cobj w' i) \<noteq> progress (cobj w i)"
    then have u: "atWork b w i" "buildingTime b \<le> currentBuildingTime b + 16.67"
      "progress (cobj w' i) = 100"
      using Builder_update_progress [of mv b w b' w' i] by blast+
    from u(1) have sb: "state b = BUILDING" by (simp add: atWork_def)
    from d have "buildingTime b = 5000" by (simp add: onDuty_def)
    with u last_tick [OF d u(2) sb] show "atWork b w i \<and> n = 299 \<and> buildingTime b = 5000
        \<and> currentBuildingTime b < 5000 \<and> progress (cobj w' i) = 100"
      by simp
  qed
  have a2: "atWork b w i \<longrightarrow>
          n < 300
          \<and> (\<forall>k. n + k < 300 \<longrightarrow>
                (\<exists>b1. builderTicks k mv b w = Some (b1, w) \<and> atWork b1 w i))
          \<and> (\<exists>b2. builderTicks (300 - n) mv b w
                     = Some (b2, w\<lparr>cobj := (cobj w)(i := (cobj w i)\<lparr>progress := 100\<rparr>)\<rparr>)
                   \<and> state b2 = IDLE \<and> buildTarget b2 = None)"
    using session_rest [OF d, of w i] by blast
  have a3: "state b = MOVING_TO_CONSTRUCTION \<and> (isMoving b = False \<or> targetPosition b = None)
        \<and> buildTarget b = Some i \<and> i \<in> set (constructions w)
        \<and> worldDistance w (position b) (interactionPoint (cobj w i)) < real_of_int (tileSize w) * 2
        \<longrightarrow> (\<exists>b1. Builder_update mv b w = Some (b1, w) \<and> atWork b1 w i
                \<and> builderRun mv (es @ [Frame w]) (Builder_new x y, 0) = Some (b1, 0))"
  proof
    assume h: "state b = MOVING_TO_CONSTRUCTION \<and> (isMoving b = False \<or> targetPosition b = None)
        \<and> buildTarget b = Some i \<and> i \<in> set (constructions w)
        \<and> worldDistance w (position b) (interactionPoint (cobj w i)) < real_of_int (tileSize w) * 2"
    let ?b1 = "b\<lparr>state := BUILDING, isBuilding := True, currentBuildingTime := 0\<rparr>"
    from h have s: "Builder_update mv b w = Some (?b1, w)" and w: "atWork ?b1 w i"
      using start_work(1) [of b i w mv] start_work(2) [of b i w] by blast+
    have "builderRun mv (es @ [Frame w]) (Builder_new x y, 0) = Some (?b1, 0)"
      using assms(2) s h by (simp add: builderRun_append)
    with s w show "\<exists>b1. Builder_update mv b w = Some (b1, w) \<and> atWork b1 w i
                \<and> builderRun mv (es @ [Frame w]) (Builder_new x y, 0) = Some (b1, 0)"
      by blast
  qed
  have a4: "Porter_update pmv p w = Some (p', wp) \<longrightarrow> progress (cobj wp i) = progress (cobj w i)"
    using Porter_update_progress by blast
  have a5: "progress (cobj (snd (Porter_timer a p w)) i) = progress (cobj w i)"
    by (rule Porter_timer_progress)
  have a6: "progress (cobj (Construction_update w j) i) = progress (cobj w i)"
    by (simp add: Construction_update_cobj)
  have a7: "onClick w h = Inr wq \<and> progress (cobj wq i) \<noteq> progress (cobj w i) \<longrightarrow>
        i = nextRef w \<and> progress (cobj wq i) = 0"
    using onClick_progress by blast
  have b1: "updatePlacementPreview w hit = Inr wu \<longrightarrow> progress (cobj wu i) = progress (cobj w i)"
    by (auto simp: updatePlacementPreview_def Let_def split: option.splits sum.splits if_splits)
  have b2: "progress (cobj (startBuildingPlacement w t) i) = progress (cobj w i)"
    by (simp add: startBuildingPlacement_def cancelBuildingPlacement_def Let_def)
  have b3: "progress (cobj (cancelBuildingPlacement w) i) = progress (cobj w i)"
    by (simp add: cancel_fields)
  have a8: "100 \<le> progress (cobj w i) \<longrightarrow>
        i \<notin> set (constructions (Construction_update w i))
        \<and> (targetBuildingType (cobj w i) = WAREHOUSE \<or> targetBuildingType (cobj w i) = WOODCUTTER \<longrightarrow>
             (\<exists>bd. buildings (Construction_update w i) = buildings w @ [bd]
                \<and> btype bd = targetBuildingType (cobj w i) \<and> position bd = position (cobj w i)))
        \<and> (targetBuildingType (cobj w i) \<noteq> WAREHOUSE \<and> targetBuildingType (cobj w i) \<noteq> WOODCUTTER \<longrightarrow>
             buildings (Construction_update w i) = buildings w)"
    using Construction_update_complete [of w i] by blast
  from a1 a2 a3 a4 a5 a6 a7 b1 b2 b3 a8 show ?thesis by (intro conjI)
qed


lemma readyWorld_simps:
  "constructions readyWorld = [0]" "buildings readyWorld = [Warehouse_new 0 0]"
  "targetBuildingType (cobj readyWorld 0) = WOODCUTTER"
  "position (cobj readyWorld 0) = (3, 0)"
  by (simp_all add: readyWorld_def raceWorld_simps Construction_new_def Building_new_def
        defineInteractionPoint_def)

lemma worker_atWork: "atWork worker readyWorld 0"
  by (simp add: atWork_def worker_def Builder_new_def readyWorld_simps)

lemma still_keepsTask: "keepsTask (\<lambda>w b. b)"
  by (simp add: keepsTask_def)

lemma readyWorld_more:
  "tileSize readyWorld = 2" "wsize readyWorld = (5, 2)"
  "cobj readyWorld 0 = (Construction_new 3 0 WOODCUTTER)\<lparr>allocatedResources := [PLANK \<mapsto> 5]\<rparr>"
  "progress (cobj readyWorld 0) = 0"
  by (simp_all add: readyWorld_def raceWorld_simps Construction_new_fields)

lemma newcomer_finds:
  "Builder_update (\<lambda>w b. b) (Builder_new 2 0) readyWorld
     = Some ((Builder_new 2 0)\<lparr>buildTarget := Some 0, state := MOVING_TO_CONSTRUCTION\<rparr>, readyWorld)"
  by (simp add: Builder_update_def Builder_new_def findConstructionToBuild_def readyWorld_simps
        readyWorld_more hasAllResources_def Construction_new_def Building_new_def
        defineInteractionPoint_def closestConstruction_def manhattan_def Let_def)

lemma newcomer_starts:
  "Builder_update (\<lambda>w b. b) ((Builder_new 2 0)\<lparr>buildTarget := Some 0, state := MOVING_TO_CONSTRUCTION\<rparr>)
      readyWorld = Some (worker, readyWorld)"
  by (simp add: Builder_update_def Builder_new_def moveToConstruction_def readyWorld_simps
        readyWorld_more Construction_new_def Building_new_def worker_def
        defineInteractionPoint_def worldDistance_def getWorldPosition_def sqrt_lt_iff
        power2_eq_square Let_def)

lemma newcomer_run:
  "builderRun (\<lambda>w b. b) [Frame readyWorld, Frame readyWorld] (Builder_new 2 0, 0) = Some (worker, 0)"
  by (simp add: newcomer_finds newcomer_starts)


theorem construction_progress_and_completion_witness:
  "keepsTask (\<lambda>w b. b)
   \<and> builderRun (\<lambda>w b. b) [Frame readyWorld, Frame readyWorld] (Builder_new 2 0, 0)
       = Some (worker, 0)
   \<and> atWork worker readyWorld 0
   \<and> builderRun (\<lambda>w b. b) [Frame readyWorld] (Builder_new 2 0, 0)
       = Some ((Builder_new 2 0)\<lparr>buildTarget := Some 0, state := MOVING_TO_CONSTRUCTION\<rparr>, 0)
   \<and> (\<exists>b1. Builder_update (\<lambda>w b. b)
                ((Builder_new 2 0)\<lparr>buildTarget := Some 0, state := MOVING_TO_CONSTRUCTION\<rparr>)
                readyWorld = Some (b1, readyWorld)
          \<and> atWork b1 readyWorld 0 \<and> state b1 = BUILDING)
   \<and> (\<exists>b1. builderTicks 299 (\<lambda>w b. b) worker readyWorld = Some (b1, readyWorld)
          \<and> atWork b1 readyWorld 0)
   \<and> (\<exists>b2. builderTicks 300 (\<lambda>w b. b) worker readyWorld = Some (b2, built) \<and> state b2 = IDLE)
   \<and> (\<exists>b b'. builderRun (\<lambda>w b. b)
                  ([Frame readyWorld, Frame readyWorld] @ replicate 299 (Frame readyWorld))
                  (Builder_new 2 0, 0) = Some (b, 299)
          \<and> Builder_update (\<lambda>w b. b) b readyWorld = Some (b', built)
          \<and> atWork b readyWorld 0 \<and> buildingTime b = 5000 \<and> currentBuildingTime b < 5000)
   \<and> progress (cobj readyWorld 0) = 0 \<and> progress (cobj built 0) = 100
   \<and> 0 \<notin> set (constructions (Construction_update built 0))
   \<and> (\<exists>bd. buildings (Construction_update built 0) = [Warehouse_new 0 0, bd]
         \<and> btype bd = WOODCUTTER \<and> position bd = (3, 0))"
proof -
  let ?mv = "\<lambda>(w::World) (b::Builder). b"
  let ?F = "Frame readyWorld"
  note k = still_keepsTask
  have p0: "progress (cobj readyWorld 0) = 0" by (rule readyWorld_more(4))
  have p1: "progress (cobj built 0) = 100" by (simp add: built_def)
  note s = construction_progress_and_completion [OF k newcomer_run, of readyWorld _ _ 0]
  from mp [OF s [THEN conjunct2, THEN conjunct1] worker_atWork]
  have s1: "\<forall>k. 0 + k < 300 \<longrightarrow>
                (\<exists>b1. builderTicks k ?mv worker readyWorld = Some (b1, readyWorld)
                   \<and> atWork b1 readyWorld 0)"
    and s2: "\<exists>b2. builderTicks (300 - 0) ?mv worker readyWorld
                = Some (b2, readyWorld\<lparr>cobj := (cobj readyWorld)
                                 (0 := (cobj readyWorld 0)\<lparr>progress := 100\<rparr>)\<rparr>)
              \<and> state b2 = IDLE \<and> buildTarget b2 = None"
    by blast+
  have e299: "\<exists>b1. builderTicks 299 ?mv worker readyWorld = Some (b1, readyWorld)
          \<and> atWork b1 readyWorld 0"
    using s1 [rule_format, of 299] by simp
  have e300: "\<exists>b2. builderTicks 300 ?mv worker readyWorld = Some (b2, built) \<and> state b2 = IDLE"
    using s2 by (auto simp: built_def)
  have t: "currentBuildingTime worker + 16.67 * real (299::nat) < buildingTime worker"
    by (simp add: worker_def Builder_new_def)
  let ?b = "worker\<lparr>currentBuildingTime := currentBuildingTime worker + 16.67 * real (299::nat)\<rparr>"
  have r: "builderRun ?mv ([?F, ?F] @ replicate 299 ?F) (Builder_new 2 0, 0) = Some (?b, 299)"
    unfolding builderRun_append newcomer_run
    using builderRun_working [OF worker_atWork t, of ?mv 0] by simp
  have ab: "atWork ?b readyWorld 0" using worker_atWork by (simp add: atWork_def)
  note l = construction_progress_and_completion [OF k r, of readyWorld _ _ 0]
  from mp [OF l [THEN conjunct2, THEN conjunct1] ab]
  have "\<exists>b2. builderTicks (300 - 299) ?mv ?b readyWorld
                = Some (b2, readyWorld\<lparr>cobj := (cobj readyWorld)
                                 (0 := (cobj readyWorld 0)\<lparr>progress := 100\<rparr>)\<rparr>)
              \<and> state b2 = IDLE \<and> buildTarget b2 = None"
    by blast
  then obtain b2 where b2: "builderTicks (Suc 0) ?mv ?b readyWorld = Some (b2, built)"
    by (auto simp: built_def)
  then have u: "Builder_update ?mv ?b readyWorld = Some (b2, built)"
    by (auto split: option.splits)
  have ne: "progress (cobj built 0) \<noteq> progress (cobj readyWorld 0)" using p0 p1 by simp
  from mp [OF l [of b2 built, THEN conjunct1] conjI [OF u ne]]
  have f: "buildingTime ?b = 5000" "currentBuildingTime ?b < 5000"
    by blast+
  from r u ab f
  have last: "\<exists>b b'. builderRun ?mv ([?F, ?F] @ replicate 299 ?F) (Builder_new 2 0, 0) = Some (b, 299)
          \<and> Builder_update ?mv b readyWorld = Some (b', built)
          \<and> atWork b readyWorld 0 \<and> buildingTime b = 5000 \<and> currentBuildingTime b < 5000"
    by blast
  have tt: "targetBuildingType (cobj built 0) = WOODCUTTER" "position (cobj built 0) = (3, 0)"
    "buildings built = [Warehouse_new 0 0]"
    by (simp_all add: built_def readyWorld_simps)
  note c = construction_progress_and_completion [OF k newcomer_run, of built _ _ 0]
  have ge: "100 \<le> progress (cobj built 0)" using p1 by simp
  from mp [OF c [THEN conjunct2, THEN conjunct2, THEN conjunct2, THEN conjunct2,
                 THEN conjunct2, THEN conjunct2, THEN conjunct2, THEN conjunct2,
                 THEN conjunct2, THEN conjunct2] ge] tt
  have c1: "0 \<notin> set (constructions (Construction_update built 0))"
    and c2: "\<exists>bd. buildings (Construction_update built 0) = [Warehouse_new 0 0, bd]
         \<and> btype bd = WOODCUTTER \<and> position bd = (3, 0)"
    by auto
  let ?m = "(Builder_new 2 0)\<lparr>buildTarget := Some 0, state := MOVING_TO_CONSTRUCTION\<rparr>"
  have st: "state (Builder_new 2 0) = IDLE" by (simp add: Builder_new_def)
  have r1: "builderRun ?mv [?F] (Builder_new 2 0, 0) = Some (?m, 0)"
    by (simp add: newcomer_finds st)
  have near: "state ?m = MOVING_TO_CONSTRUCTION \<and> (isMoving ?m = False \<or> targetPosition ?m = None)
        \<and> buildTarget ?m = Some 0 \<and> 0 \<in> set (constructions readyWorld)
        \<and> worldDistance readyWorld (position ?m) (interactionPoint (cobj readyWorld 0))
              < real_of_int (tileSize readyWorld) * 2"
    by (simp add: Builder_new_def readyWorld_simps readyWorld_more Construction_new_def
          Building_new_def defineInteractionPoint_def worldDistance_def getWorldPosition_def
          sqrt_lt_iff power2_eq_square Let_def)
  note m = construction_progress_and_completion [OF k r1, of readyWorld _ _ 0]
  from mp [OF m [THEN conjunct2, THEN conjunct2, THEN conjunct1] near]
  have en: "\<exists>b1. Builder_update ?mv ?m readyWorld = Some (b1, readyWorld)
          \<and> atWork b1 readyWorld 0 \<and> state b1 = BUILDING"
    by (auto simp: atWork_def)
  from k newcomer_run worker_atWork r1 en e299 e300 last p0 p1 c1 c2
  show ?thesis by (intro conjI)
qed

text \<open>
  C5 as stated fails for a target type other than warehouse and woodcutter: the sawmill
  construction with progress 100 leaves the world's list, and the list of buildings is as
  before.
\<close>

theorem sawmill_not_replaced_counterexample:
  "100 \<le> progress (cobj sawmillWorld 0)
   \<and> targetBuildingType (cobj sawmillWorld 0) = SAWMILL
   \<and> constructions sawmillWorld = [0]
   \<and> constructions (Construction_update sawmillWorld 0) = []
   \<and> buildings (Construction_update sawmillWorld 0) = buildings sawmillWorld
   \<and> buildings sawmillWorld = [Warehouse_new 0 0]"
  by (simp add: sawmillWorld_def addConstruction_def addBuilding_def grassWorld_def
        Construction_update_def completeConstruction_def Construction_new_def Building_new_def
        defineInteractionPoint_def Let_def)

section \<open>Placement: properties\<close>

lemma footprintCells_1: "footprintCells (x, y) (1, 1) = [(x, y)]"
  by (simp add: footprintCells_def)

lemma footprintCells_2:
  "footprintCells (x, y) (2, 2) = [(x, y), (x + 1, y), (x, y + 1), (x + 1, y + 1)]"
proof -
  have u: "[a..a + 2 - 1] = [a, a + 1]" for a :: int
  proof -
    have "[a..a + 1] = a # [a + 1..a + 1]" by (rule upto_rec1) simp
    then show ?thesis by (simp add: add.commute)
  qed
  show ?thesis unfolding footprintCells_def fst_conv snd_conv u by simp
qed

lemma onClick_invalid: "\<not> placementValid w1 \<Longrightarrow> onClick w1 h = Inr w1"
  by (simp add: onClick_def)

lemma buildingCosts_positive: "(r, a) \<in> set (buildingCosts t) \<Longrightarrow> 0 < a"
  by (cases t) auto

lemma buildingCosts_distinct: "distinct (map fst (buildingCosts t))"
  by (cases t) auto

lemma hasResources_affordable:
  "hasResources rs (buildingCosts t) = affordable rs t"
  using buildingCosts_positive [of _ _ t]
  by (fastforce simp: hasResources_iff affordable_def list_all_iff)

lemma isPlacementValid_iff:
  assumes "buildingTypeToPlace w = Some t"
  shows "isPlacementValid w x y
           = Inr (list_all (tileFree w) (footprintCells (x, y) (footprintOf t))
                  \<and> affordable (resourceManager w) t)"
proof (cases "t = WAREHOUSE")
  case True
  show ?thesis
    using assms True
    by (auto simp: isPlacementValid_def footprintOf_def footprintCells_2 tileFree_def
          inBounds_def hasResources_affordable Let_def simp del: buildingCosts.simps)
next
  case False
  show ?thesis
    using assms False
    by (auto simp: isPlacementValid_def footprintOf_def footprintCells_1 tileFree_def
          inBounds_def hasResources_affordable Let_def simp del: buildingCosts.simps)
qed

lemma preview_result:
  assumes "placementPreviewMesh w" and "buildingTypeToPlace w = Some t"
    and "getGridPosition w (fst pt) (snd pt) = (x, y)"
  shows "updatePlacementPreview w (Some pt)
           = Inr (w\<lparr>placementValid :=
                      (list_all (tileFree w) (footprintCells (x, y) (footprintOf t))
                       \<and> affordable (resourceManager w) t),
                    placementGridPosition := Some (x, y)\<rparr>)"
  using assms by (simp add: updatePlacementPreview_def isPlacementValid_iff Let_def)

lemma place_result:
  assumes "placementValid w1" and "placementGridPosition w1 = Some (x, y)"
    and "buildingTypeToPlace w1 = Some t"
  shows "\<exists>w2. placeBuilding w1 = Inr w2
       \<and> constructions w2 = constructions w1 @ [nextRef w1]
       \<and> cobj w2 = (cobj w1)(nextRef w1 := Construction_new x y t)
       \<and> resourceManager w2 = fst (consumeResources (resourceManager w1) (buildingCosts t))"
  using assms
  by (simp add: placeBuilding_def Let_def cancel_fields addConstruction_def)

lemma consume_cost:
  assumes "affordable rs t"
  shows "(r, a) \<in> set (buildingCosts t) \<Longrightarrow>
           getResource (fst (consumeResources rs (buildingCosts t))) r = getResource rs r - a"
    and "r' \<notin> fst ` set (buildingCosts t) \<Longrightarrow>
           fst (consumeResources rs (buildingCosts t)) r' = rs r'"
proof -
  have h: "hasResources rs (buildingCosts t)" using assms by (simp add: hasResources_affordable)
  then have c: "fst (consumeResources rs (buildingCosts t)) = decrementAll rs (buildingCosts t)"
    by (simp add: consumeResources_def)
  show "r' \<notin> fst ` set (buildingCosts t) \<Longrightarrow>
           fst (consumeResources rs (buildingCosts t)) r' = rs r'"
    by (simp add: c decrementAll_other)
  assume m: "(r, a) \<in> set (buildingCosts t)"
  with h have "getResource rs r \<noteq> 0" by (auto simp: hasResources_iff)
  then show "getResource (fst (consumeResources rs (buildingCosts t))) r = getResource rs r - a"
    using m by (simp add: c getResource_decrementAll buildingCosts_distinct)
qed

text \<open>
  When the click follows a preview update of the same state, the placement is validated. On a
  world whose terrain array has the dimensions of its size, in placement mode for building
  type \<open>t\<close> with the mouse over the grid cell \<open>(x, y)\<close>, the preview update followed by a
  click places the building exactly when every tile of the footprint is in bounds, grass and
  unoccupied and the ledger holds the full cost. Then every count of the cost is decreased
  by its amount, no other count changes, and a new Construction of type \<open>t\<close> at
  \<open>(x, y)\<close> is appended to the world's list. Otherwise the click changes nothing, and the
  ledger, the terrain, the list of constructions, the construction objects and the buildings
  are as before the preview update.
\<close>

theorem preview_then_click_validated:
  assumes "terrainMatchesSize w"
    and "buildingPlacementMode w" and "placementPreviewMesh w"
    and "buildingTypeToPlace w = Some t"
    and "getGridPosition w (fst pt) (snd pt) = (x, y)"
  shows "\<exists>w1. updatePlacementPreview w (Some pt) = Inr w1
     \<and> (if list_all (tileFree w) (footprintCells (x, y) (footprintOf t))
            \<and> affordable (resourceManager w) t
        then \<exists>w2. onClick w1 True = Inr w2
               \<and> constructions w2 = constructions w @ [nextRef w]
               \<and> cobj w2 = (cobj w)(nextRef w := Construction_new x y t)
               \<and> position (cobj w2 (nextRef w)) = (x, y)
               \<and> targetBuildingType (cobj w2 (nextRef w)) = t
               \<and> (\<forall>(r, a) \<in> set (buildingCosts t).
                     getResource (resourceManager w2) r = getResource (resourceManager w) r - a)
               \<and> (\<forall>r. r \<notin> fst ` set (buildingCosts t) \<longrightarrow>
                     resourceManager w2 r = resourceManager w r)
        else onClick w1 True = Inr w1
               \<and> resourceManager w1 = resourceManager w \<and> terrain w1 = terrain w
               \<and> constructions w1 = constructions w \<and> cobj w1 = cobj w
               \<and> buildings w1 = buildings w)"
proof -
  let ?v = "list_all (tileFree w) (footprintCells (x, y) (footprintOf t))
            \<and> affordable (resourceManager w) t"
  let ?w1 = "w\<lparr>placementValid := ?v, placementGridPosition := Some (x, y)\<rparr>"
  have p: "updatePlacementPreview w (Some pt) = Inr ?w1"
    by (rule preview_result [OF assms(3,4,5)])
  show ?thesis
  proof (cases ?v)
    case False
    then have "\<not> placementValid ?w1" by simp
    then have "onClick ?w1 True = Inr ?w1" by (rule onClick_invalid)
    then show ?thesis using p False by simp
  next
    case True
    then have v: "placementValid ?w1" by simp
    have c: "onClick ?w1 True = placeBuilding ?w1"
      using assms(2) v by (simp add: onClick_def)
    from place_result [of ?w1 x y t] v assms(4)
    obtain w2 where w2: "placeBuilding ?w1 = Inr w2"
      "constructions w2 = constructions w @ [nextRef w]"
      "cobj w2 = (cobj w)(nextRef w := Construction_new x y t)"
      "resourceManager w2 = fst (consumeResources (resourceManager w) (buildingCosts t))"
      by auto
    from True have a: "affordable (resourceManager w) t" by simp
    have "\<forall>(r, a) \<in> set (buildingCosts t).
             getResource (resourceManager w2) r = getResource (resourceManager w) r - a"
      using consume_cost(1) [OF a] w2(4) by auto
    moreover have "\<forall>r. r \<notin> fst ` set (buildingCosts t) \<longrightarrow>
                     resourceManager w2 r = resourceManager w r"
      using consume_cost(2) [OF a] w2(4) by auto
    ultimately show ?thesis
      using p True c w2 by (simp add: Construction_new_fields)
  qed
qed

lemma baseWorld_simps:
  "wsize baseWorld = (5, 2)" "resourceManager baseWorld = initial_resources"
  "buildingPlacementMode baseWorld = False" "nextRef baseWorld = 0"
  "constructions baseWorld = []" "buildings baseWorld = [Warehouse_new 0 0]"
  "tileSize baseWorld = 2"
  by (simp_all add: baseWorld_def grassWorld_def addBuilding_def)

lemma baseWorld_terrain:
  "terrain baseWorld =
     [[grassTile\<lparr>building := Some (Warehouse_new 0 0), buildable := False\<rparr>,
       grassTile\<lparr>building := Some (Warehouse_new 0 0), buildable := False\<rparr>,
       grassTile, grassTile, grassTile],
      [grassTile\<lparr>building := Some (Warehouse_new 0 0), buildable := False\<rparr>,
       grassTile\<lparr>building := Some (Warehouse_new 0 0), buildable := False\<rparr>,
       grassTile, grassTile, grassTile]]"
proof -
  have s: "bsize (Warehouse_new 0 0) = (2, 2)" "position (Warehouse_new 0 0) = (0, 0)"
    by (simp_all add: Warehouse_new_def Building_new_def defineInteractionPoint_def)
  have r: "replicate 2 (replicate 5 grassTile)
             = [[grassTile, grassTile, grassTile, grassTile, grassTile],
                [grassTile, grassTile, grassTile, grassTile, grassTile]]"
    by (simp add: eval_nat_numeral)
  show ?thesis
    unfolding baseWorld_def addBuilding_def occupy_def s footprintCells_2
    by (simp add: grassWorld_def r inBounds_def occupyTile_def)
qed

lemma placingWorld_simps:
  "buildingPlacementMode placingWorld" "placementPreviewMesh placingWorld"
  "buildingTypeToPlace placingWorld = Some WOODCUTTER"
  "terrain placingWorld = terrain baseWorld" "wsize placingWorld = (5, 2)"
  "resourceManager placingWorld = initial_resources" "nextRef placingWorld = 0"
  "constructions placingWorld = []" "tileSize placingWorld = 2"
  by (simp_all add: placingWorld_def startBuildingPlacement_def baseWorld_simps Let_def)

lemma placingWorld_valid:
  "list_all (tileFree placingWorld) (footprintCells (3, 0) (footprintOf WOODCUTTER))
   \<and> affordable (resourceManager placingWorld) WOODCUTTER"
  by (simp add: footprintOf_def footprintCells_1 tileFree_def inBounds_def placingWorld_simps
        baseWorld_terrain grassTile_def affordable_def getResource_eq initial_resources_def)

lemma placingWorld_grid: "getGridPosition placingWorld (fst (1, -1)) (snd (1, -1)) = (3, 0)"
  by (simp add: getGridPosition_def placingWorld_simps)

lemma warehousePlacingWorld_simps:
  "buildingPlacementMode warehousePlacingWorld" "placementPreviewMesh warehousePlacingWorld"
  "buildingTypeToPlace warehousePlacingWorld = Some WAREHOUSE"
  "terrain warehousePlacingWorld = terrain baseWorld" "wsize warehousePlacingWorld = (5, 2)"
  "resourceManager warehousePlacingWorld = initial_resources"
  "constructions warehousePlacingWorld = []" "tileSize warehousePlacingWorld = 2"
  by (simp_all add: warehousePlacingWorld_def startBuildingPlacement_def baseWorld_simps Let_def)

lemma warehousePlacingWorld_invalid:
  "\<not> list_all (tileFree warehousePlacingWorld) (footprintCells (1, 0) (footprintOf WAREHOUSE))"
  by (simp add: footprintOf_def footprintCells_2 tileFree_def warehousePlacingWorld_simps
        baseWorld_terrain grassTile_def)

lemma warehousePlacingWorld_grid:
  "getGridPosition warehousePlacingWorld (fst (-3, -1)) (snd (-3, -1)) = (1, 0)"
  by (simp add: getGridPosition_def warehousePlacingWorld_simps)

lemma placingWorld_wf:
  "terrainMatchesSize placingWorld" "terrainMatchesSize warehousePlacingWorld"
  by (simp_all add: terrainMatchesSize_def placingWorld_simps warehousePlacingWorld_simps
        baseWorld_terrain)

theorem preview_then_click_example:
  "terrainMatchesSize placingWorld
   \<and> buildingPlacementMode placingWorld \<and> placementPreviewMesh placingWorld
   \<and> buildingTypeToPlace placingWorld = Some WOODCUTTER
   \<and> getGridPosition placingWorld 1 (-1) = (3, 0)
   \<and> (\<exists>w1 w2. updatePlacementPreview placingWorld (Some (1, -1)) = Inr w1
         \<and> onClick w1 True = Inr w2
         \<and> constructions w2 = [0] \<and> position (cobj w2 0) = (3, 0)
         \<and> targetBuildingType (cobj w2 0) = WOODCUTTER
         \<and> getResource (resourceManager w2) PLANK = 5)
   \<and> buildingTypeToPlace warehousePlacingWorld = Some WAREHOUSE
   \<and> getGridPosition warehousePlacingWorld (-3) (-1) = (1, 0)
   \<and> (\<exists>w1. updatePlacementPreview warehousePlacingWorld (Some (-3, -1)) = Inr w1
         \<and> onClick w1 True = Inr w1
         \<and> resourceManager w1 = initial_resources
         \<and> terrain w1 = terrain baseWorld \<and> constructions w1 = [])"
proof -
  note a = preview_then_click_validated [OF placingWorld_wf(1) placingWorld_simps(1,2,3) placingWorld_grid]
  from a placingWorld_valid
  obtain w1 w2 where 1: "updatePlacementPreview placingWorld (Some (1, -1)) = Inr w1"
    "onClick w1 True = Inr w2" "constructions w2 = constructions placingWorld @ [nextRef placingWorld]"
    "position (cobj w2 (nextRef placingWorld)) = (3, 0)"
    "targetBuildingType (cobj w2 (nextRef placingWorld)) = WOODCUTTER"
    "\<forall>(r, a) \<in> set (buildingCosts WOODCUTTER).
        getResource (resourceManager w2) r = getResource (resourceManager placingWorld) r - a"
    by auto
  from 1(6) have "getResource (resourceManager w2) PLANK = 5"
    by (simp add: placingWorld_simps getResource_eq initial_resources_def)
  with 1 have ok: "\<exists>w1 w2. updatePlacementPreview placingWorld (Some (1, -1)) = Inr w1
         \<and> onClick w1 True = Inr w2
         \<and> constructions w2 = [0] \<and> position (cobj w2 0) = (3, 0)
         \<and> targetBuildingType (cobj w2 0) = WOODCUTTER
         \<and> getResource (resourceManager w2) PLANK = 5"
    by (auto simp: placingWorld_simps)
  note b = preview_then_click_validated
    [OF placingWorld_wf(2) warehousePlacingWorld_simps(1,2,3) warehousePlacingWorld_grid]
  from b warehousePlacingWorld_invalid
  have no: "\<exists>w1. updatePlacementPreview warehousePlacingWorld (Some (-3, -1)) = Inr w1
         \<and> onClick w1 True = Inr w1
         \<and> resourceManager w1 = initial_resources
         \<and> terrain w1 = terrain baseWorld \<and> constructions w1 = []"
    by (auto simp: warehousePlacingWorld_simps)
  from ok no placingWorld_wf(1) placingWorld_simps(1,2,3) placingWorld_grid
    warehousePlacingWorld_simps(3) warehousePlacingWorld_grid
  show ?thesis by simp
qed

lemma occupy_cong:
  "wsize w' = wsize w \<Longrightarrow> terrain w' = terrain w \<Longrightarrow> occupy w' b = occupy w b"
  by (simp add: occupy_def inBounds_def)

lemma occupy_preview:
  "occupy (w\<lparr>placementValid := v, placementGridPosition := g\<rparr>) b = occupy w b"
  by (rule occupy_cong) simp_all

lemma placeBuilding_eq:
  assumes "placementValid w" and "placementGridPosition w = Some (x, y)"
    and "buildingTypeToPlace w = Some t" and "buildingPlacementMode w"
  shows "placeBuilding w =
    Inr (w\<lparr>resourceManager := fst (consumeResources (resourceManager w) (buildingCosts t)),
           cobj := (cobj w)(nextRef w := Construction_new x y t),
           nextRef := Suc (nextRef w),
           constructions := constructions w @ [nextRef w],
           terrain := occupy w (Building.truncate (Construction_new x y t)),
           buildingPlacementMode := False, buildingTypeToPlace := None,
           placementPreviewMesh := False\<rparr>)"
proof -
  let ?w2 = "w\<lparr>resourceManager := fst (consumeResources (resourceManager w) (buildingCosts t)),
               cobj := (cobj w)(nextRef w := Construction_new x y t),
               nextRef := Suc (nextRef w)\<rparr>"
  have a: "cobj ?w2 (nextRef w) = Construction_new x y t" by simp
  have o: "occupy ?w2 (Building.truncate (cobj ?w2 (nextRef w)))
             = occupy w (Building.truncate (Construction_new x y t))"
    unfolding a by (rule occupy_cong) simp_all
  have "placeBuilding w = Inr (cancelBuildingPlacement (addConstruction ?w2 (nextRef w)))"
    using assms by (simp add: placeBuilding_def Let_def)
  also have "addConstruction ?w2 (nextRef w)
       = ?w2\<lparr>constructions := constructions w @ [nextRef w],
              terrain := occupy w (Building.truncate (Construction_new x y t))\<rparr>"
    unfolding addConstruction_def o by simp
  finally show ?thesis
    using assms(4) by (simp add: cancelBuildingPlacement_def)
qed

lemma occupy_woodcutter:
  "occupy placingWorld (Building.truncate (Construction_new 3 0 WOODCUTTER)) =
     [[grassTile\<lparr>building := Some (Warehouse_new 0 0), buildable := False\<rparr>,
       grassTile\<lparr>building := Some (Warehouse_new 0 0), buildable := False\<rparr>,
       grassTile,
       grassTile\<lparr>building := Some (Building.truncate (Construction_new 3 0 WOODCUTTER)),
                  buildable := False\<rparr>,
       grassTile],
      [grassTile\<lparr>building := Some (Warehouse_new 0 0), buildable := False\<rparr>,
       grassTile\<lparr>building := Some (Warehouse_new 0 0), buildable := False\<rparr>,
       grassTile, grassTile, grassTile]]"
proof -
  have s: "bsize (Building.truncate (Construction_new 3 0 WOODCUTTER)) = (1, 1)"
    "position (Building.truncate (Construction_new 3 0 WOODCUTTER)) = (3, 0)"
    by (simp_all add: Building.truncate_def Construction_new_fields footprintOf_def)
  show ?thesis
    unfolding occupy_def s footprintCells_1
    by (simp add: placingWorld_simps baseWorld_terrain inBounds_def occupyTile_def
          eval_nat_numeral)
qed

lemma firstPreview:
  "updatePlacementPreview placingWorld (Some (1, -1))
     = Inr (placingWorld\<lparr>placementValid := True, placementGridPosition := Some (3, 0)\<rparr>)"
  using preview_result [OF placingWorld_simps(2,3) placingWorld_grid] placingWorld_valid
  by simp

lemma placedOnce_eq:
  "placedOnce =
     Inr (placingWorld\<lparr>placementValid := True, placementGridPosition := Some (3, 0),
           resourceManager := fst (consumeResources initial_resources (buildingCosts WOODCUTTER)),
           cobj := (cobj placingWorld)(0 := Construction_new 3 0 WOODCUTTER),
           nextRef := Suc 0,
           constructions := [0],
           terrain := occupy placingWorld (Building.truncate (Construction_new 3 0 WOODCUTTER)),
           buildingPlacementMode := False, buildingTypeToPlace := None,
           placementPreviewMesh := False\<rparr>)"
proof -
  let ?w1 = "placingWorld\<lparr>placementValid := True, placementGridPosition := Some (3, 0)\<rparr>"
  have "placedOnce = placeBuilding ?w1"
    by (simp add: placedOnce_def firstPreview onClick_def placingWorld_simps)
  also have "\<dots> = Inr (?w1\<lparr>resourceManager := fst (consumeResources (resourceManager ?w1) (buildingCosts WOODCUTTER)),
           cobj := (cobj ?w1)(nextRef ?w1 := Construction_new 3 0 WOODCUTTER),
           nextRef := Suc (nextRef ?w1),
           constructions := constructions ?w1 @ [nextRef ?w1],
           terrain := occupy ?w1 (Building.truncate (Construction_new 3 0 WOODCUTTER)),
           buildingPlacementMode := False, buildingTypeToPlace := None,
           placementPreviewMesh := False\<rparr>)"
    by (rule placeBuilding_eq) (simp_all add: placingWorld_simps)
  finally show ?thesis
    by (simp add: placingWorld_simps occupy_preview del: buildingCosts.simps)
qed

lemma placedOnce_fields:
  "\<exists>w2. placedOnce = Inr w2
     \<and> buildingPlacementMode w2 = False \<and> placementValid w2
     \<and> placementGridPosition w2 = Some (3, 0) \<and> constructions w2 = [0]
     \<and> cobj w2 = (cobj placingWorld)(0 := Construction_new 3 0 WOODCUTTER)
     \<and> nextRef w2 = Suc 0 \<and> wsize w2 = (5, 2)
     \<and> resourceManager w2 = fst (consumeResources initial_resources (buildingCosts WOODCUTTER))
     \<and> terrain w2 = occupy placingWorld (Building.truncate (Construction_new 3 0 WOODCUTTER))"
  by (simp add: placedOnce_eq placingWorld_simps del: buildingCosts.simps)

lemma start_fields:
  "buildingPlacementMode (startBuildingPlacement w t)"
  "buildingTypeToPlace (startBuildingPlacement w t) = Some t"
  "placementValid (startBuildingPlacement w t) = placementValid w"
  "placementGridPosition (startBuildingPlacement w t) = placementGridPosition w"
  "terrain (startBuildingPlacement w t) = terrain w"
  "wsize (startBuildingPlacement w t) = wsize w"
  "resourceManager (startBuildingPlacement w t) = resourceManager w"
  "constructions (startBuildingPlacement w t) = constructions w"
  "cobj (startBuildingPlacement w t) = cobj w"
  "nextRef (startBuildingPlacement w t) = nextRef w"
  by (simp_all add: startBuildingPlacement_def cancelBuildingPlacement_def Let_def)

lemma tile_taken:
  "building (occupy placingWorld (Building.truncate (Construction_new 3 0 WOODCUTTER)) ! 0 ! 3)
     \<noteq> None"
  by (simp add: occupy_woodcutter eval_nat_numeral)

lemma stale:
  "\<exists>w2 w4. placedOnce = Inr w2
     \<and> map (\<lambda>i. (position (cobj w2 i), targetBuildingType (cobj w2 i))) (constructions w2)
         = [((3, 0), WOODCUTTER)]
     \<and> getResource (resourceManager w2) PLANK = 5
     \<and> tileFree (startBuildingPlacement w2 WOODCUTTER) (3, 0) = False
     \<and> isPlacementValid (startBuildingPlacement w2 WOODCUTTER) 3 0 = Inr False
     \<and> onClick (startBuildingPlacement w2 WOODCUTTER) True = Inr w4
     \<and> map (\<lambda>i. (position (cobj w4 i), targetBuildingType (cobj w4 i))) (constructions w4)
         = [((3, 0), WOODCUTTER), ((3, 0), WOODCUTTER)]
     \<and> getResource (resourceManager w4) PLANK = 0"
proof -
  from placedOnce_fields obtain w2 where w2: "placedOnce = Inr w2"
     "buildingPlacementMode w2 = False" "placementValid w2"
     "placementGridPosition w2 = Some (3, 0)" "constructions w2 = [0]"
     "cobj w2 = (cobj placingWorld)(0 := Construction_new 3 0 WOODCUTTER)"
     "nextRef w2 = Suc 0" "wsize w2 = (5, 2)"
     "resourceManager w2 = fst (consumeResources initial_resources (buildingCosts WOODCUTTER))"
     "terrain w2 = occupy placingWorld (Building.truncate (Construction_new 3 0 WOODCUTTER))"
    by blast
  let ?w3 = "startBuildingPlacement w2 WOODCUTTER"
  have tf: "tileFree ?w3 (3, 0) = False"
    using tile_taken by (simp add: tileFree_def start_fields w2)
  have iv: "isPlacementValid ?w3 3 0 = Inr False"
    using tf by (simp add: isPlacementValid_iff [OF start_fields(2)] footprintOf_def footprintCells_1)
  have f: "placementValid ?w3" "placementGridPosition ?w3 = Some (3, 0)"
    "buildingTypeToPlace ?w3 = Some WOODCUTTER" "buildingPlacementMode ?w3"
    by (simp_all add: start_fields w2)
  have c: "onClick ?w3 True = placeBuilding ?w3"
    using f by (simp add: onClick_def)
  note e = placeBuilding_eq [OF f]
  have p1: "getResource (resourceManager w2) PLANK = 5"
    by (simp add: w2 consumeResources_def initial_resources_def getResource_eq)
  have r: "resourceManager w2 = initial_resources(PLANK \<mapsto> 5)"
    by (simp add: w2 consumeResources_def initial_resources_def getResource_eq fun_eq_iff)
  show ?thesis
    apply (rule exI [of _ w2])
    apply (subst c)
    apply (subst e)
    apply (simp add: w2(1,5,6) tf iv p1 start_fields Construction_new_fields del: buildingCosts.simps)
    apply (simp add: r consumeResources_def initial_resources_def getResource_eq)
    done
qed

text \<open>
  C8 fails in the code. \<open>_placeBuilding\<close> checks nothing but the flag that the last preview
  update stored, and neither \<open>cancelBuildingPlacement\<close> nor \<open>startBuildingPlacement\<close>
  resets the flag or the stored grid position. After a woodcutter has been placed on the tile
  (3, 0) for 5 of the 10 planks, the click on the build menu that opens a second session
  reaches \<open>_onClick\<close> with the flag still true: although \<open>_isPlacementValid\<close> rejects the
  tile (3, 0), which is occupied, a second construction is placed on it and the 5 remaining
  planks are consumed.
\<close>

theorem placement_stale_flag:
  "(case placedOnce of
      Inl e \<Rightarrow> None
    | Inr w2 \<Rightarrow>
        Some (map (\<lambda>i. (position (cobj w2 i), targetBuildingType (cobj w2 i))) (constructions w2),
              getResource (resourceManager w2) PLANK))
     = Some ([((3, 0), WOODCUTTER)], 5)
   \<and> secondCheck = Inr False
   \<and> (case placedTwice of
        Inl e \<Rightarrow> None
      | Inr w4 \<Rightarrow>
          Some (map (\<lambda>i. (position (cobj w4 i), targetBuildingType (cobj w4 i))) (constructions w4),
                getResource (resourceManager w4) PLANK))
       = Some ([((3, 0), WOODCUTTER), ((3, 0), WOODCUTTER)], 0)"
proof -
  from stale obtain w2 where "\<exists>w4. placedOnce = Inr w2
     \<and> map (\<lambda>i. (position (cobj w2 i), targetBuildingType (cobj w2 i))) (constructions w2)
         = [((3, 0), WOODCUTTER)]
     \<and> getResource (resourceManager w2) PLANK = 5
     \<and> tileFree (startBuildingPlacement w2 WOODCUTTER) (3, 0) = False
     \<and> isPlacementValid (startBuildingPlacement w2 WOODCUTTER) 3 0 = Inr False
     \<and> onClick (startBuildingPlacement w2 WOODCUTTER) True = Inr w4
     \<and> map (\<lambda>i. (position (cobj w4 i), targetBuildingType (cobj w4 i))) (constructions w4)
         = [((3, 0), WOODCUTTER), ((3, 0), WOODCUTTER)]
     \<and> getResource (resourceManager w4) PLANK = 0" ..
  then obtain w4 where c: "placedOnce = Inr w2
     \<and> map (\<lambda>i. (position (cobj w2 i), targetBuildingType (cobj w2 i))) (constructions w2)
         = [((3, 0), WOODCUTTER)]
     \<and> getResource (resourceManager w2) PLANK = 5
     \<and> tileFree (startBuildingPlacement w2 WOODCUTTER) (3, 0) = False
     \<and> isPlacementValid (startBuildingPlacement w2 WOODCUTTER) 3 0 = Inr False
     \<and> onClick (startBuildingPlacement w2 WOODCUTTER) True = Inr w4
     \<and> map (\<lambda>i. (position (cobj w4 i), targetBuildingType (cobj w4 i))) (constructions w4)
         = [((3, 0), WOODCUTTER), ((3, 0), WOODCUTTER)]
     \<and> getResource (resourceManager w4) PLANK = 0" ..
  note s = c [THEN conjunct1] c [THEN conjunct2, THEN conjunct1]
    c [THEN conjunct2, THEN conjunct2, THEN conjunct1]
    c [THEN conjunct2, THEN conjunct2, THEN conjunct2, THEN conjunct2, THEN conjunct1]
    c [THEN conjunct2, THEN conjunct2, THEN conjunct2, THEN conjunct2, THEN conjunct2,
       THEN conjunct1]
    c [THEN conjunct2, THEN conjunct2, THEN conjunct2, THEN conjunct2, THEN conjunct2,
       THEN conjunct2, THEN conjunct1]
    c [THEN conjunct2, THEN conjunct2, THEN conjunct2, THEN conjunct2, THEN conjunct2,
       THEN conjunct2, THEN conjunct2]
  show ?thesis
    by (simp only: secondCheck_def secondSession_def placedTwice_def s sum.case option.case
          simp_thms)
qed

section \<open>PathFinder: properties\<close>

lemma sort_key_const: "\<forall>x \<in> set xs. f x = c \<Longrightarrow> sort_key f xs = xs"
  by (induction xs) (auto simp: insort_is_Cons)

lemma createGrid_nth:
  assumes "0 \<le> x" "x < fst (wsize w)" "0 \<le> y" "y < snd (wsize w)"
  shows "createGrid w ! nat y ! nat x = isPassable w x y"
  using assms by (simp add: createGrid_def)

lemma candidates_adjacent:
  "(bx, by') \<in> set (map (\<lambda>(dx, dy). (ax + dx, ay + dy)) directions)
     \<longleftrightarrow> \<bar>ax - bx\<bar> + \<bar>ay - by'\<bar> = 1"
  unfolding directions_def by (simp add: abs_if) presburger

lemma isPassable_bounds:
  "isPassable w x y \<Longrightarrow> 0 \<le> x \<and> x < fst (wsize w) \<and> 0 \<le> y \<and> y < snd (wsize w)"
  by (simp add: isPassable_def split: if_splits)

lemma edge_iff:
  "edge w (createGrid w) a b \<longleftrightarrow> adjacent a b \<and> isPassable w (fst b) (snd b)"
proof -
  obtain ax ay bx by' where a: "a = (ax, ay)" and b: "b = (bx, by')"
    by (cases a, cases b) auto
  have "edge w (createGrid w) a b \<longleftrightarrow>
          (bx, by') \<in> set (map (\<lambda>(dx, dy). (ax + dx, ay + dy)) directions)
          \<and> \<not> (bx < 0 \<or> by' < 0 \<or> bx \<ge> fst (wsize w) \<or> by' \<ge> snd (wsize w))
          \<and> createGrid w ! nat by' ! nat bx"
    unfolding a b edge_def getNeighbors_def by simp
  also have "\<dots> \<longleftrightarrow> adjacent a b \<and> isPassable w bx by'"
    unfolding candidates_adjacent adjacent_def a b
    using isPassable_bounds [of w bx by'] createGrid_nth [of bx w by']
    by (cases "bx < 0 \<or> by' < 0 \<or> bx \<ge> fst (wsize w) \<or> by' \<ge> snd (wsize w)") auto
  finally show ?thesis by (simp add: b)
qed

lemma route_walk: "route w (createGrid w) a r = walk w a r"
  by (induction r arbitrary: a) (simp_all add: edge_iff)

lemma edge_cells: "edge w grid a b \<Longrightarrow> b \<in> cells w"
  by (auto simp: edge_def dest: getNeighbors_cells)

lemma route_append:
  "route w grid a (r @ [c]) \<longleftrightarrow> route w grid a r \<and> edge w grid (last (a # r)) c"
  by (induction r arbitrary: a) auto

lemma inv_coreD:
  assumes "inv_core w grid s gl d st"
  shows "\<And>n. n \<in> set (openSet st) \<Longrightarrow> nkey n = (nx n, ny n)"
    and "\<And>n. n \<in> set (openSet st) \<Longrightarrow> nf n = \<infinity>"
    and "distinct (map nkey (openSet st))"
    and "okeys st \<inter> closedSet st = {}"
    and "s \<in> closedSet st" and "cameFrom st s = None" and "d s = 0"
    and "dom (cameFrom st) = seen st - {s}"
    and "\<And>k p. cameFrom st k = Some p \<Longrightarrow> p \<in> closedSet st"
    and "\<And>k p. cameFrom st k = Some p \<Longrightarrow> edge w grid p k"
    and "\<And>k p. cameFrom st k = Some p \<Longrightarrow> d k = Suc (d p)"
    and "\<And>k. orInfinity (gScore st k) = \<infinity>"
    and "gl \<notin> closedSet st"
    and "sorted (map (\<lambda>n. d (nkey n)) (openSet st))"
  using assms unfolding inv_core_def by blast+

lemma inv_layerD:
  assumes "inv_layer w grid d cur S st"
  shows "cur \<in> closedSet st"
    and "\<And>c. c \<in> closedSet st \<Longrightarrow> d c \<le> d cur"
    and "\<And>n. n \<in> set (openSet st) \<Longrightarrow> d cur \<le> d (nkey n)"
    and "\<And>n. n \<in> set (openSet st) \<Longrightarrow> d (nkey n) \<le> Suc (d cur)"
    and "\<And>c b. c \<in> closedSet st \<Longrightarrow> c \<noteq> cur \<Longrightarrow> edge w grid c b \<Longrightarrow> b \<in> seen st"
    and "\<And>c b. c \<in> closedSet st \<Longrightarrow> c \<noteq> cur \<Longrightarrow> edge w grid c b \<Longrightarrow> d b \<le> Suc (d c)"
    and "\<And>b. b \<in> S \<Longrightarrow> b \<in> seen st"
    and "\<And>b. b \<in> S \<Longrightarrow> d b \<le> Suc (d cur)"
  using assms unfolding inv_layer_def by blast+

lemma findIndex_None_okeys: "findIndex (\<lambda>n. nkey n = b) (openSet st) = None \<longleftrightarrow> b \<notin> okeys st"
  by (auto simp: findIndex_None okeys_def)

lemma visitNeighbor_cases:
  assumes "\<And>k. orInfinity (gScore st k) = \<infinity>"
  shows "visitNeighbor ex ey c b st = (if b \<in> seen st then st else pushed c b st)"
proof (cases "b \<in> closedSet st")
  case True
  then show ?thesis by (simp add: visitNeighbor_def nodeKey_def seen_def)
next
  case False
  have g: "orInfinity (gScore st (nkey c)) = \<infinity>" "orInfinity (gScore st b) = \<infinity>"
    by (rule assms)+
  show ?thesis
  proof (cases "findIndex (\<lambda>n. nkey n = b) (openSet st)")
    case None
    then have "b \<notin> okeys st" by (simp add: findIndex_None_okeys)
    then show ?thesis
      using None False g
      by (simp add: visitNeighbor_def nodeKey_def seen_def pushed_def Let_def)
  next
    case (Some i)
    then have "b \<in> okeys st"
      using findIndex_None_okeys [of b st] by auto
    then show ?thesis
      using Some False g
      by (simp add: visitNeighbor_def nodeKey_def seen_def Let_def)
  qed
qed

lemma pushed_fields:
  "openSet (pushed c b st) = openSet st @ [\<lparr>nkey = b, nx = fst b, ny = snd b, nf = \<infinity>\<rparr>]"
  "closedSet (pushed c b st) = closedSet st"
  "cameFrom (pushed c b st) = (cameFrom st)(b \<mapsto> nkey c)"
  "gScore (pushed c b st) = (gScore st)(b \<mapsto> \<infinity>)"
  "okeys (pushed c b st) = insert b (okeys st)"
  "seen (pushed c b st) = insert b (seen st)"
  by (simp_all add: pushed_def okeys_def seen_def)

lemma sorted_snoc_iff:
  "sorted (xs @ [y]) \<longleftrightarrow> sorted xs \<and> (\<forall>x \<in> set xs. x \<le> (y::nat))"
  by (auto simp: sorted_append)

lemma inv_pushed:
  assumes core: "inv_core w grid s gl d st" and layer: "inv_layer w grid d cur S st"
    and c: "nkey c = cur" and e: "edge w grid cur b" and fresh: "b \<notin> seen st"
  defines "d' \<equiv> d(b := Suc (d cur))"
  shows "inv_core w grid s gl d' (pushed c b st)"
    and "inv_layer w grid d' cur (insert b S) (pushed c b st)"
proof -
  note cd = inv_coreD [OF core] and ld = inv_layerD [OF layer]
  have bcl: "b \<notin> closedSet st" and bok: "b \<notin> okeys st"
    using fresh by (simp_all add: seen_def)
  have bs: "b \<noteq> s" using cd(5) bcl by blast
  have bcur: "b \<noteq> cur" using ld(1) bcl by blast
  have same: "d' k = d k" if "k \<in> seen st" for k
    using that fresh by (auto simp: d'_def)
  have samecl: "d' k = d k" if "k \<in> closedSet st" for k
    using that same by (simp add: seen_def)
  have sameop: "d' (nkey n) = d (nkey n)" if "n \<in> set (openSet st)" for n
    using that same by (simp add: seen_def okeys_def)
  have d'b: "d' b = Suc (d cur)" and d'cur: "d' cur = d cur"
    using bcur by (simp_all add: d'_def)
  have K: "\<forall>n \<in> set (openSet (pushed c b st)). nkey n = (nx n, ny n) \<and> nf n = \<infinity>"
    using cd(1,2) by (auto simp: pushed_fields)
  have D: "distinct (map nkey (openSet (pushed c b st)))"
    using cd(3) bok by (simp add: pushed_fields okeys_def)
  have X: "okeys (pushed c b st) \<inter> closedSet (pushed c b st) = {}"
    using cd(4) bcl by (simp add: pushed_fields)
  have St: "s \<in> closedSet (pushed c b st) \<and> cameFrom (pushed c b st) s = None \<and> d' s = 0"
    using cd(5,6,7) bs by (simp add: pushed_fields d'_def)
  have C: "dom (cameFrom (pushed c b st)) = seen (pushed c b st) - {s}"
    using cd(8) bs by (auto simp: pushed_fields)
  have P: "\<forall>k p. cameFrom (pushed c b st) k = Some p \<longrightarrow>
             p \<in> closedSet (pushed c b st) \<and> edge w grid p k \<and> d' k = Suc (d' p)"
  proof (intro allI impI)
    fix k p assume kp: "cameFrom (pushed c b st) k = Some p"
    show "p \<in> closedSet (pushed c b st) \<and> edge w grid p k \<and> d' k = Suc (d' p)"
    proof (cases "k = b")
      case True
      with kp have "p = cur" by (simp add: pushed_fields c)
      then show ?thesis using True ld(1) e d'b d'cur by (simp add: pushed_fields)
    next
      case False
      with kp have old: "cameFrom st k = Some p" by (simp add: pushed_fields)
      note p = cd(9) [OF old] cd(10) [OF old] cd(11) [OF old]
      from old have "k \<in> dom (cameFrom st)" by blast
      then have "k \<in> seen st" using cd(8) by blast
      then show ?thesis using p same samecl by (simp add: pushed_fields)
    qed
  qed
  have G: "\<forall>k. orInfinity (gScore (pushed c b st) k) = \<infinity>"
    using cd(12) by (simp add: pushed_fields)
  have T: "gl \<notin> closedSet (pushed c b st)"
    using cd(13) by (simp add: pushed_fields)
  have O: "sorted (map (\<lambda>n. d' (nkey n)) (openSet (pushed c b st)))"
  proof -
    have meq: "map (\<lambda>n. d' (nkey n)) (openSet st) = map (\<lambda>n. d (nkey n)) (openSet st)"
      using sameop by simp
    have srt: "sorted (map (\<lambda>n. d' (nkey n)) (openSet st))"
      unfolding meq by (rule cd(14))
    have bnd: "\<forall>n \<in> set (openSet st). d' (nkey n) \<le> Suc (d cur)"
      using ld(4) sameop by simp
    show ?thesis
      using srt bnd by (simp add: pushed_fields d'b sorted_snoc_iff)
  qed
  show "inv_core w grid s gl d' (pushed c b st)"
    unfolding inv_core_def using K D X St C P G T O by blast
  have L1: "cur \<in> closedSet (pushed c b st)"
    using ld(1) by (simp add: pushed_fields)
  have L2: "\<forall>x \<in> closedSet (pushed c b st). d' x \<le> d' cur"
    using ld(2) samecl d'cur by (simp add: pushed_fields)
  have L3: "\<forall>n \<in> set (openSet (pushed c b st)). d' cur \<le> d' (nkey n) \<and> d' (nkey n) \<le> Suc (d' cur)"
    using ld(3,4) sameop d'cur d'b by (auto simp: pushed_fields)
  have L4: "\<forall>x \<in> closedSet (pushed c b st). x \<noteq> cur \<longrightarrow>
         (\<forall>y. edge w grid x y \<longrightarrow> y \<in> seen (pushed c b st) \<and> d' y \<le> Suc (d' x))"
  proof (intro ballI impI allI)
    fix x y assume x: "x \<in> closedSet (pushed c b st)" "x \<noteq> cur" and xy: "edge w grid x y"
    from x have xc: "x \<in> closedSet st" by (simp add: pushed_fields)
    have "y \<in> seen st" "d y \<le> Suc (d x)"
      using ld(5) [OF xc x(2) xy] ld(6) [OF xc x(2) xy] by simp_all
    then show "y \<in> seen (pushed c b st) \<and> d' y \<le> Suc (d' x)"
      using same samecl xc by (simp add: pushed_fields)
  qed
  have L5: "\<forall>y \<in> insert b S. y \<in> seen (pushed c b st) \<and> d' y \<le> Suc (d' cur)"
    using ld(7,8) same d'b d'cur by (auto simp: pushed_fields)
  show "inv_layer w grid d' cur (insert b S) (pushed c b st)"
    unfolding inv_layer_def using L1 L2 L3 L4 L5 by blast
qed

lemma inv_seen:
  assumes layer: "inv_layer w grid d cur S st" and seen: "b \<in> seen st"
  shows "inv_layer w grid d cur (insert b S) st"
proof -
  note ld = inv_layerD [OF layer]
  have "d b \<le> Suc (d cur)"
  proof (cases "b \<in> closedSet st")
    case True
    then show ?thesis using ld(2) [of b] by simp
  next
    case False
    then obtain n where "n \<in> set (openSet st)" "nkey n = b"
      using seen by (auto simp: seen_def okeys_def)
    then show ?thesis using ld(4) [of n] by simp
  qed
  then show ?thesis using layer seen by (simp add: inv_layer_def)
qed

lemma inv_visitNeighbor:
  assumes "inv_core w grid s gl d st" and "inv_layer w grid d cur S st"
    and "nkey c = cur" and "edge w grid cur b"
  shows "\<exists>d'. inv_core w grid s gl d' (visitNeighbor ex ey c b st)
            \<and> inv_layer w grid d' cur (insert b S) (visitNeighbor ex ey c b st)"
proof -
  note v = visitNeighbor_cases [of st ex ey c b, OF inv_coreD(12) [OF assms(1)]]
  show ?thesis
  proof (cases "b \<in> seen st")
    case True
    then show ?thesis
      using assms(1) inv_seen [OF assms(2) True] by (auto simp: v)
  next
    case False
    then show ?thesis
      using inv_pushed [OF assms False] by (auto simp: v)
  qed
qed

lemma inv_fold:
  assumes "inv_core w grid s gl d st" and "inv_layer w grid d cur S st"
    and "nkey c = cur" and "\<forall>b \<in> set bs. edge w grid cur b"
  shows "\<exists>d'. inv_core w grid s gl d' (fold (visitNeighbor ex ey c) bs st)
            \<and> inv_layer w grid d' cur (S \<union> set bs) (fold (visitNeighbor ex ey c) bs st)"
  using assms
proof (induction bs arbitrary: d st S)
  case Nil
  then show ?case by auto
next
  case (Cons b bs)
  from Cons.prems(4) have e: "edge w grid cur b" and es: "\<forall>b \<in> set bs. edge w grid cur b"
    by simp_all
  from inv_visitNeighbor [OF Cons.prems(1,2,3) e, of ex ey]
  obtain d1 where 1: "inv_core w grid s gl d1 (visitNeighbor ex ey c b st)"
    "inv_layer w grid d1 cur (insert b S) (visitNeighbor ex ey c b st)" by blast
  from Cons.IH [OF 1 Cons.prems(3) es]
  show ?case by simp
qed

lemma seen_pop:
  assumes "openSet st = h # rest"
  shows "seen (st\<lparr>openSet := rest, closedSet := insert (nkey h) (closedSet st)\<rparr>) = seen st"
  using assms by (auto simp: seen_def okeys_def)

lemma inv_pop:
  assumes core: "inv_core w grid s gl d st" and layer: "inv_layer w grid d cur S st"
    and all: "\<And>b. edge w grid cur b \<Longrightarrow> b \<in> S"
    and op: "openSet st = h # rest" and ng: "nkey h \<noteq> gl"
  defines "st' \<equiv> st\<lparr>openSet := rest, closedSet := insert (nkey h) (closedSet st)\<rparr>"
  shows "inv_core w grid s gl d st'" and "inv_layer w grid d (nkey h) {} st'"
proof -
  note cd = inv_coreD [OF core] and ld = inv_layerD [OF layer]
  have f: "openSet st' = rest" "closedSet st' = insert (nkey h) (closedSet st)"
    "cameFrom st' = cameFrom st" "gScore st' = gScore st"
    by (simp_all add: st'_def)
  have sn: "seen st' = seen st" unfolding st'_def by (rule seen_pop [OF op])
  have hin: "h \<in> set (openSet st)" and rin: "\<And>n. n \<in> set rest \<Longrightarrow> n \<in> set (openSet st)"
    using op by simp_all
  have hnr: "nkey h \<notin> nkey ` set rest" and dr: "distinct (map nkey rest)"
    using cd(3) op by simp_all
  have hncl: "nkey h \<notin> closedSet st"
    using cd(4) hin by (auto simp: okeys_def)
  have K: "\<forall>n \<in> set (openSet st'). nkey n = (nx n, ny n) \<and> nf n = \<infinity>"
    using cd(1,2) rin by (simp add: f)
  have X: "okeys st' \<inter> closedSet st' = {}"
    using cd(4) hnr op by (auto simp: okeys_def f)
  have C: "dom (cameFrom st') = seen st' - {s}"
    using cd(8) by (simp add: sn f)
  have P: "\<forall>k p. cameFrom st' k = Some p \<longrightarrow>
             p \<in> closedSet st' \<and> edge w grid p k \<and> d k = Suc (d p)"
    using cd(9,10,11) by (simp add: f)
  have O: "sorted (map (\<lambda>n. d (nkey n)) (openSet st'))"
    using cd(14) op by (simp add: f)
  show "inv_core w grid s gl d st'"
    unfolding inv_core_def using K dr X cd(5,6,7,12,13) C P O ng by (simp add: f)
  have hmin: "d (nkey h) \<le> d (nkey n)" if "n \<in> set rest" for n
    using cd(14) op that by auto
  have L2: "\<forall>c \<in> closedSet st'. d c \<le> d (nkey h)"
    using ld(2) ld(3) [OF hin] by (auto simp: f intro: order_trans)
  have L3: "\<forall>n \<in> set (openSet st'). d (nkey h) \<le> d (nkey n) \<and> d (nkey n) \<le> Suc (d (nkey h))"
  proof
    fix n assume "n \<in> set (openSet st')"
    then have n: "n \<in> set rest" by (simp add: f)
    have "d (nkey n) \<le> Suc (d cur)" using ld(4) [OF rin [OF n]] .
    moreover have "d cur \<le> d (nkey h)" using ld(3) [OF hin] .
    ultimately show "d (nkey h) \<le> d (nkey n) \<and> d (nkey n) \<le> Suc (d (nkey h))"
      using hmin [OF n] by simp
  qed
  have L4: "\<forall>c \<in> closedSet st'. c \<noteq> nkey h \<longrightarrow>
         (\<forall>b. edge w grid c b \<longrightarrow> b \<in> seen st' \<and> d b \<le> Suc (d c))"
  proof (intro ballI impI allI)
    fix c b assume c: "c \<in> closedSet st'" "c \<noteq> nkey h" and cb: "edge w grid c b"
    from c have cc: "c \<in> closedSet st" by (simp add: f)
    show "b \<in> seen st' \<and> d b \<le> Suc (d c)"
    proof (cases "c = cur")
      case True
      then show ?thesis using ld(7,8) [OF all] cb by (simp add: sn)
    next
      case False
      then show ?thesis using ld(5,6) [OF cc False cb] by (simp add: sn)
    qed
  qed
  show "inv_layer w grid d (nkey h) {} st'"
    unfolding inv_layer_def using L2 L3 L4 by (simp add: f)
qed

lemma reconstruct_chain:
  assumes core: "inv_core w grid s gl d st"
  shows "k \<in> seen st \<Longrightarrow>
         \<exists>p. reconstructPath (cameFrom st) k acc = Some (p @ acc)
            \<and> route w grid s p \<and> last (s # p) = k \<and> length p = d k"
proof (induction "d k" arbitrary: k acc rule: less_induct)
  case less
  note cd = inv_coreD [OF core]
  show ?case
  proof (cases "k = s")
    case True
    then have "reconstructPath (cameFrom st) k acc = Some acc"
      using cd(6) by (subst reconstructPath.simps) simp
    then show ?thesis using True cd(7) by simp
  next
    case False
    then have "k \<in> dom (cameFrom st)" using less.prems cd(8) by simp
    then obtain q where q: "cameFrom st k = Some q" by blast
    have qc: "q \<in> seen st" using cd(9) [OF q] by (simp add: seen_def)
    have dk: "d k = Suc (d q)" by (rule cd(11) [OF q])
    then have "d q < d k" by simp
    from less.hyps [OF this qc, of "k # acc"]
    obtain p where p: "reconstructPath (cameFrom st) q (k # acc) = Some (p @ k # acc)"
      "route w grid s p" "last (s # p) = q" "length p = d q" by blast
    have "reconstructPath (cameFrom st) k acc = Some ((p @ [k]) @ acc)"
      using q p(1) by (subst reconstructPath.simps) simp
    moreover have "route w grid s (p @ [k])"
      using p(2,3) cd(10) [OF q] by (simp add: route_append)
    moreover have "last (s # p @ [k]) = k" by simp
    moreover have "length (p @ [k]) = d k" using p(4) dk by simp
    ultimately show ?thesis by blast
  qed
qed

lemma closed_edge:
  assumes layer: "inv_layer w grid d cur S st" and all: "\<And>b. edge w grid cur b \<Longrightarrow> b \<in> S"
    and a: "a \<in> closedSet st" and e: "edge w grid a c"
  shows "c \<in> seen st" and "d c \<le> Suc (d a)"
proof -
  note ld = inv_layerD [OF layer]
  show "c \<in> seen st"
    using ld(5) [OF a _ e] ld(7) [OF all] e by (cases "a = cur") auto
  show "d c \<le> Suc (d a)"
    using ld(6) [OF a _ e] ld(8) [OF all] e by (cases "a = cur") auto
qed

lemma route_reach:
  assumes layer: "inv_layer w grid d cur S st" and all: "\<And>b. edge w grid cur b \<Longrightarrow> b \<in> S"
  shows "route w grid a r \<Longrightarrow> a \<in> closedSet st \<Longrightarrow>
         (last (a # r) \<in> closedSet st \<and> d (last (a # r)) \<le> d a + length r)
         \<or> (\<exists>n \<in> set (openSet st). d (nkey n) \<le> d a + length r)"
proof (induction r arbitrary: a)
  case Nil
  then show ?case by simp
next
  case (Cons c cs)
  from Cons.prems(1) have e: "edge w grid a c" and rt: "route w grid c cs" by simp_all
  note ce = closed_edge [OF layer all Cons.prems(2) e]
  show ?case
  proof (cases "c \<in> closedSet st")
    case True
    from Cons.IH [OF rt True]
    consider (A) "last (c # cs) \<in> closedSet st" "d (last (c # cs)) \<le> d c + length cs"
      | (B) n where "n \<in> set (openSet st)" "d (nkey n) \<le> d c + length cs"
      by blast
    then show ?thesis
    proof cases
      case A
      have "last (a # c # cs) = last (c # cs)" by simp
      moreover have "d (last (c # cs)) \<le> d a + length (c # cs)"
        using A(2) ce(2) by simp
      ultimately show ?thesis using A(1) by metis
    next
      case B
      have "d (nkey n) \<le> d a + length (c # cs)" using B(2) ce(2) by simp
      then show ?thesis using B(1) by blast
    qed
  next
    case False
    with ce(1) obtain n where "n \<in> set (openSet st)" "nkey n = c"
      by (auto simp: seen_def okeys_def)
    then show ?thesis using ce(2) by (intro disjI2 bexI [of _ n]) auto
  qed
qed

lemma astarLoop_outcome:
  "inv_core w grid s (ex, ey) d st \<Longrightarrow> inv_layer w grid d cur S st \<Longrightarrow>
   (\<And>b. edge w grid cur b \<Longrightarrow> b \<in> S) \<Longrightarrow>
   \<exists>p. astarLoop w grid ex ey st = Some p \<and> outcome w grid s (ex, ey) p"
proof (induction w grid ex ey st arbitrary: d cur S rule: astarLoop.induct)
  case (1 w grid ex ey st)
  note core = "1.prems"(1) and layer = "1.prems"(2) and all = "1.prems"(3)
  note cd = inv_coreD [OF core] and ld = inv_layerD [OF layer]
  show ?case
  proof (cases "openSet st = []")
    case True
    have "astarLoop w grid ex ey st = Some []"
      using True by (subst astarLoop.simps) simp
    moreover have "last (s # r) \<noteq> (ex, ey)" if "route w grid s r" for r
      using route_reach [OF layer all that cd(5)] True cd(13) by auto
    ultimately show ?thesis by (simp add: outcome_def)
  next
    case False
    then obtain h rest where op: "openSet st = h # rest" by (cases "openSet st") auto
    have srt: "sort_key nf (openSet st) = openSet st"
      using cd(2) by (intro sort_key_const [of _ _ \<infinity>]) simp
    have hin: "h \<in> set (openSet st)" using op by simp
    have hk: "nkey h = (nx h, ny h)" by (rule cd(1) [OF hin])
    show ?thesis
    proof (cases "nx h = ex \<and> ny h = ey")
      case True
      then have g: "nkey h = (ex, ey)" using hk by simp
      have loop: "astarLoop w grid ex ey st = reconstructPath (cameFrom st) (ex, ey) []"
        using False True srt op g by (subst astarLoop.simps) (simp add: Let_def)
      have "nkey h \<in> nkey ` set (openSet st)" using hin by (rule imageI)
      then have "(ex, ey) \<in> seen st" unfolding g by (simp add: seen_def okeys_def)
      from reconstruct_chain [OF core this, of "[]"]
      obtain p where p: "reconstructPath (cameFrom st) (ex, ey) [] = Some p"
        "route w grid s p" "last (s # p) = (ex, ey)" "length p = d (ex, ey)" by auto
      have "length p \<le> length r" if r: "route w grid s r" "last (s # r) = (ex, ey)" for r
      proof -
        from route_reach [OF layer all r(1) cd(5)] r(2) cd(13) cd(7)
        obtain n where n: "n \<in> set (openSet st)" "d (nkey n) \<le> length r" by auto
        have "d (nkey h) \<le> d (nkey n)"
          using cd(14) op n(1) by auto
        then show ?thesis using p(4) g n(2) by simp
      qed
      then show ?thesis using loop p by (auto simp: outcome_def)
    next
      case False
      note notgoal = False
      let ?pop = "st\<lparr>openSet := rest, closedSet := insert (nkey h) (closedSet st)\<rparr>"
      let ?nbs = "getNeighbors w (nx h) (ny h) grid"
      let ?st' = "fold (visitNeighbor ex ey h) ?nbs ?pop"
      have ng: "nkey h \<noteq> (ex, ey)" using False hk by auto
      note pop = inv_pop [OF core layer all op ng]
      have ed: "\<forall>b \<in> set ?nbs. edge w grid (nkey h) b"
        by (simp add: edge_def hk)
      from inv_fold [OF pop refl ed, of ex ey]
      obtain d' where d': "inv_core w grid s (ex, ey) d' ?st'"
        "inv_layer w grid d' (nkey h) ({} \<union> set ?nbs) ?st'" by blast
      have all': "\<And>b. edge w grid (nkey h) b \<Longrightarrow> b \<in> {} \<union> set ?nbs"
        by (simp add: edge_def hk)
      have hd: "hd (sort_key nf (openSet st)) = h" "tl (sort_key nf (openSet st)) = rest"
        using srt op by simp_all
      have nonempty: "openSet st \<noteq> []" using op by simp
      have ng': "\<not> (nx (hd (sort_key nf (openSet st))) = ex \<and> ny (hd (sort_key nf (openSet st))) = ey)"
        using notgoal hd by simp
      from "1.IH" [OF nonempty refl refl ng', unfolded hd, OF d' all']
      obtain p where p: "astarLoop w grid ex ey ?st' = Some p" "outcome w grid s (ex, ey) p"
        by blast
      have "astarLoop w grid ex ey st = astarLoop w grid ex ey ?st'"
        using nonempty notgoal hd by (subst astarLoop.simps) (auto simp: Let_def)
      then show ?thesis using p by simp
    qed
  qed
qed

lemma findPath_outcome:
  "\<exists>p. findPath w sx sy ex ey = Some p \<and> outcome w (createGrid w) (sx, sy) (ex, ey) p"
proof -
  let ?grid = "createGrid w"
  let ?h = "enat (nat (heuristic sx sy ex ey))"
  let ?n0 = "\<lparr>nkey = (sx, sy), nx = sx, ny = sy, nf = ?h\<rparr>"
  let ?st0 = "\<lparr>openSet = [?n0], closedSet = {}, cameFrom = Map.empty,
               gScore = [(sx, sy) \<mapsto> 0], fScore = [(sx, sy) \<mapsto> ?h]\<rparr>"
  have fp: "findPath w sx sy ex ey = astarLoop w ?grid ex ey ?st0"
    by (simp add: findPath_def nodeKey_def Let_def)
  show ?thesis
  proof (cases "sx = ex \<and> sy = ey")
    case True
    have "astarLoop w ?grid ex ey ?st0 = reconstructPath Map.empty (sx, sy) []"
      using True by (subst astarLoop.simps) (simp add: Let_def)
    also have "\<dots> = Some []" by (subst reconstructPath.simps) simp
    finally show ?thesis using True fp by (simp add: outcome_def)
  next
    case False
    let ?pop = "?st0\<lparr>openSet := [], closedSet := insert (nkey ?n0) (closedSet ?st0)\<rparr>"
    let ?nbs = "getNeighbors w sx sy ?grid"
    let ?st1 = "fold (visitNeighbor ex ey ?n0) ?nbs ?pop"
    have step: "astarLoop w ?grid ex ey ?st0 = astarLoop w ?grid ex ey ?st1"
      using False by (subst astarLoop.simps) (auto simp: Let_def)
    have g: "orInfinity (([(sx, sy) \<mapsto> 0] :: pos \<rightharpoonup> enat) k) = \<infinity>" for k
      by simp
    have core: "inv_core w ?grid (sx, sy) (ex, ey) (\<lambda>_. 0) ?pop"
      unfolding inv_core_def using False g by (auto simp: okeys_def seen_def)
    have layer: "inv_layer w ?grid (\<lambda>_. 0) (sx, sy) {} ?pop"
      unfolding inv_layer_def by simp
    have ed: "\<forall>b \<in> set ?nbs. edge w ?grid (sx, sy) b"
      by (simp add: edge_def)
    have "\<exists>d'. inv_core w ?grid (sx, sy) (ex, ey) d' ?st1
             \<and> inv_layer w ?grid d' (sx, sy) ({} \<union> set ?nbs) ?st1"
      by (rule inv_fold [OF core layer _ ed]) simp
    then obtain d' where d': "inv_core w ?grid (sx, sy) (ex, ey) d' ?st1"
      "inv_layer w ?grid d' (sx, sy) ({} \<union> set ?nbs) ?st1" by blast
    have all': "\<And>b. edge w ?grid (sx, sy) b \<Longrightarrow> b \<in> {} \<union> set ?nbs"
      by (simp add: edge_def)
    from astarLoop_outcome [OF d' all'] step fp show ?thesis by simp
  qed
qed

lemma set_rectCells: "set (rectCells a b) = {c. inRect a b c}"
  by (auto simp: rectCells_def inRect_def)

lemma unobstructed_iff:
  "unobstructed w a b \<longleftrightarrow> (\<forall>c. inRect a b c \<and> c \<noteq> a \<longrightarrow> isPassable w (fst c) (snd c))"
  by (auto simp: unobstructed_def list_all_iff set_rectCells)

lemma walk_nth:
  "walk w a p \<Longrightarrow> Suc i < length p \<Longrightarrow> adjacent (p ! i) (p ! Suc i)"
proof (induction p arbitrary: a i)
  case Nil
  then show ?case by simp
next
  case (Cons c cs)
  show ?case
  proof (cases i)
    case 0
    with Cons.prems show ?thesis by (cases cs) simp_all
  next
    case (Suc j)
    with Cons.prems Cons.IH [of c j] show ?thesis by simp
  qed
qed

lemma walk_passable: "walk w a p \<Longrightarrow> \<forall>c \<in> set p. isPassable w (fst c) (snd c)"
  by (induction p arbitrary: a) auto

lemma walk_hd: "walk w a p \<Longrightarrow> p \<noteq> [] \<Longrightarrow> adjacent a (hd p)"
  by (cases p) simp_all

lemma adjacent_manhattan: "adjacent a c \<Longrightarrow> manhattan a b \<le> 1 + manhattan c b"
  by (auto simp: adjacent_def manhattan_def)

lemma walk_manhattan: "walk w a r \<Longrightarrow> manhattan a (last (a # r)) \<le> int (length r)"
proof (induction r arbitrary: a)
  case Nil
  then show ?case by (simp add: manhattan_def)
next
  case (Cons c cs)
  then have "adjacent a c" and "manhattan c (last (c # cs)) \<le> int (length cs)" by simp_all
  then show ?case using adjacent_manhattan [of a c "last (c # cs)"] by simp
qed

lemma direct_walk:
  "nat (manhattan a b) = n \<Longrightarrow>
   (\<And>c. inRect a b c \<Longrightarrow> c \<noteq> a \<Longrightarrow> isPassable w (fst c) (snd c)) \<Longrightarrow>
   \<exists>r. walk w a r \<and> last (a # r) = b \<and> int (length r) = manhattan a b"
proof (induction n arbitrary: a)
  case 0
  then have "a = b" by (auto simp: manhattan_def prod_eq_iff)
  then show ?case by (intro exI [of _ "[]"]) (simp add: manhattan_def)
next
  case (Suc n)
  obtain ax ay bx by' where a: "a = (ax, ay)" and b: "b = (bx, by')"
    by (cases a, cases b) auto
  define c where "c = (if ax < bx then (ax + 1, ay) else if bx < ax then (ax - 1, ay)
                       else if ay < by' then (ax, ay + 1) else (ax, ay - 1))"
  from Suc.prems(1) have pos: "0 < manhattan a b" by simp
  have adj: "adjacent a c"
    by (simp add: c_def a adjacent_def)
  have closer: "manhattan c b = manhattan a b - 1"
    using pos by (auto simp: c_def a b manhattan_def)
  have inr: "inRect a b c" and ne: "c \<noteq> a"
    using pos by (auto simp: c_def a b manhattan_def inRect_def)
  have sub: "inRect a b c' \<and> c' \<noteq> a" if "inRect c b c'" for c'
    using that pos by (cases c') (auto simp: c_def a b manhattan_def inRect_def split: if_splits)
  have n: "nat (manhattan c b) = n" using Suc.prems(1) closer by simp
  have "\<exists>r. walk w c r \<and> last (c # r) = b \<and> int (length r) = manhattan c b"
  proof (rule Suc.IH [OF n])
    fix c' assume "inRect c b c'" "c' \<noteq> c"
    then show "isPassable w (fst c') (snd c')" using sub Suc.prems(2) by blast
  qed
  then obtain r where r: "walk w c r" "last (c # r) = b" "int (length r) = manhattan c b"
    by blast
  have "walk w a (c # r)" using adj r(1) Suc.prems(2) [OF inr ne] by simp
  moreover have "last (a # c # r) = b" using r(2) by simp
  moreover have "int (length (c # r)) = manhattan a b" using r(3) closer by simp
  ultimately show ?case by blast
qed

lemma findPath_walk:
  obtains p where "findPath w sx sy ex ey = Some p"
    and "(walk w (sx, sy) p \<and> last ((sx, sy) # p) = (ex, ey)
          \<and> (\<forall>r. walk w (sx, sy) r \<and> last ((sx, sy) # r) = (ex, ey) \<longrightarrow> length p \<le> length r))
         \<or> (p = [] \<and> (\<forall>r. walk w (sx, sy) r \<longrightarrow> last ((sx, sy) # r) \<noteq> (ex, ey)))"
  using findPath_outcome [of w sx sy ex ey]
  unfolding outcome_def route_walk by blast

lemma pond_wf: "terrainMatchesSize pondWorld"
  by (simp add: terrainMatchesSize_def pondWorld_def)

lemma pond_around:
  "findPath pondWorld 0 0 2 0 = Some [(0, 1), (0, 2), (1, 2), (2, 2), (2, 1), (2, 0)]"
  by code_simp

lemma pond_water: "findPath pondWorld 0 0 1 0 = Some []"
  by code_simp

lemma pond_straight: "findPath pondWorld 0 0 0 2 = Some [(0, 1), (0, 2)]"
  by code_simp

lemma pond_walk: "walk pondWorld (0, 0) [(0, 1), (0, 2), (1, 2), (2, 2), (2, 1), (2, 0)]"
  by code_simp

lemma pond_walk2: "walk pondWorld (0, 0) [(0, 1), (0, 2)]"
  by code_simp

lemma pond_unobstructed: "unobstructed pondWorld (0, 0) (0, 2)"
  by code_simp

lemma pond_manhattan: "manhattan (0, 0) (2, 0) = 2" "manhattan (0, 0) (0, 2) = 2"
  by (simp_all add: manhattan_def)

lemma pond_impassable: "isPassable pondWorld 1 0 = False"
  by code_simp

lemma pond_no_walk: "walk pondWorld (0, 0) r \<Longrightarrow> last ((0, 0) # r) \<noteq> (1, 0)"
proof (cases "r = []")
  case True
  then show ?thesis by simp
next
  case False
  assume "walk pondWorld (0, 0) r"
  then have "isPassable pondWorld (fst (last r)) (snd (last r))"
    using walk_passable False last_in_set by blast
  then show ?thesis using False pond_impassable by auto
qed

text \<open>
  C10: on a world whose terrain array has the dimensions of its size, every non-empty path
  that \<open>findPath\<close> returns is a contiguous 4-connected chain.
  Its first cell is 4-adjacent to the start cell, every two consecutive cells are 4-adjacent,
  its last cell is the goal, and every cell on it is passable by \<open>_isPassable\<close> on the
  world the query ran on.
\<close>

theorem findPath_chain:
  assumes "terrainMatchesSize w" and "findPath w sx sy ex ey = Some p" and "p \<noteq> []"
  shows "adjacent (sx, sy) (hd p)
       \<and> (\<forall>i. Suc i < length p \<longrightarrow> adjacent (p ! i) (p ! Suc i))
       \<and> last p = (ex, ey)
       \<and> (\<forall>c \<in> set p. isPassable w (fst c) (snd c))"
proof -
  from findPath_walk [of w sx sy ex ey] assms(2,3)
  have w: "walk w (sx, sy) p" and l: "last ((sx, sy) # p) = (ex, ey)"
    by auto
  from l assms(3) have "last p = (ex, ey)" by simp
  then show ?thesis
    using walk_hd [OF w assms(3)] walk_nth [OF w] walk_passable [OF w] by blast
qed

theorem findPath_chain_witness:
  "terrainMatchesSize pondWorld
   \<and> findPath pondWorld 0 0 2 0 = Some [(0, 1), (0, 2), (1, 2), (2, 2), (2, 1), (2, 0)]
   \<and> adjacent (0, 0) (hd ([(0, 1), (0, 2), (1, 2), (2, 2), (2, 1), (2, 0)] :: pos list))
   \<and> adjacent (([(0, 1), (0, 2), (1, 2), (2, 2), (2, 1), (2, 0)] :: pos list) ! 4)
        ([(0, 1), (0, 2), (1, 2), (2, 2), (2, 1), (2, 0)] ! Suc 4)
   \<and> last ([(0, 1), (0, 2), (1, 2), (2, 2), (2, 1), (2, 0)] :: pos list) = (2, 0)
   \<and> isPassable pondWorld (fst ((2, 1) :: pos)) (snd ((2, 1) :: pos))"
proof -
  have ne: "([(0, 1), (0, 2), (1, 2), (2, 2), (2, 1), (2, 0)] :: pos list) \<noteq> []" by simp
  note c = findPath_chain [OF pond_wf pond_around ne]
  from c have 1: "adjacent (0, 0) (hd ([(0, 1), (0, 2), (1, 2), (2, 2), (2, 1), (2, 0)] :: pos list))"
    and 3: "last ([(0, 1), (0, 2), (1, 2), (2, 2), (2, 1), (2, 0)] :: pos list) = (2, 0)"
    by blast+
  from c have "Suc 4 < length ([(0, 1), (0, 2), (1, 2), (2, 2), (2, 1), (2, 0)] :: pos list) \<longrightarrow>
      adjacent (([(0, 1), (0, 2), (1, 2), (2, 2), (2, 1), (2, 0)] :: pos list) ! 4)
        ([(0, 1), (0, 2), (1, 2), (2, 2), (2, 1), (2, 0)] ! Suc 4)"
    by blast
  then have 2: "adjacent (([(0, 1), (0, 2), (1, 2), (2, 2), (2, 1), (2, 0)] :: pos list) ! 4)
        ([(0, 1), (0, 2), (1, 2), (2, 2), (2, 1), (2, 0)] ! Suc 4)"
    by simp
  from c have "(2, 1) \<in> set ([(0, 1), (0, 2), (1, 2), (2, 2), (2, 1), (2, 0)] :: pos list) \<longrightarrow>
      isPassable pondWorld (fst ((2, 1) :: pos)) (snd ((2, 1) :: pos))"
    by blast
  then have 4: "isPassable pondWorld (fst ((2, 1) :: pos)) (snd ((2, 1) :: pos))" by simp
  from pond_wf pond_around 1 2 3 4 show ?thesis by (intro conjI)
qed

text \<open>
  C7: on a world whose terrain array has the dimensions of its size, for every start and
  goal cell \<open>findPath\<close> returns; when no walk leads from the start
  to the goal it returns the empty list; and when a walk does, the list it returns is a walk
  from the start that ends at the goal, and for a goal other than the start it is not empty:
  it begins with a cell 4-adjacent to the start and its last cell is the goal.
\<close>

theorem findPath_terminates:
  assumes "terrainMatchesSize w"
  shows "(\<exists>p. findPath w sx sy ex ey = Some p)
   \<and> ((\<forall>r. walk w (sx, sy) r \<longrightarrow> last ((sx, sy) # r) \<noteq> (ex, ey)) \<longrightarrow>
        findPath w sx sy ex ey = Some [])
   \<and> (\<forall>r. walk w (sx, sy) r \<and> last ((sx, sy) # r) = (ex, ey) \<longrightarrow>
        (\<exists>p. findPath w sx sy ex ey = Some p
            \<and> walk w (sx, sy) p \<and> last ((sx, sy) # p) = (ex, ey)
            \<and> ((sx, sy) \<noteq> (ex, ey) \<longrightarrow>
                  p \<noteq> [] \<and> adjacent (sx, sy) (hd p) \<and> last p = (ex, ey))))"
proof -
  obtain p where p: "findPath w sx sy ex ey = Some p"
    and o: "(walk w (sx, sy) p \<and> last ((sx, sy) # p) = (ex, ey)
          \<and> (\<forall>r. walk w (sx, sy) r \<and> last ((sx, sy) # r) = (ex, ey) \<longrightarrow> length p \<le> length r))
         \<or> (p = [] \<and> (\<forall>r. walk w (sx, sy) r \<longrightarrow> last ((sx, sy) # r) \<noteq> (ex, ey)))"
    by (rule findPath_walk)
  have 1: "\<exists>p. findPath w sx sy ex ey = Some p" using p by blast
  have 2: "findPath w sx sy ex ey = Some []"
    if "\<forall>r. walk w (sx, sy) r \<longrightarrow> last ((sx, sy) # r) \<noteq> (ex, ey)"
    using that o p by blast
  have 3: "\<exists>p. findPath w sx sy ex ey = Some p
            \<and> walk w (sx, sy) p \<and> last ((sx, sy) # p) = (ex, ey)
            \<and> ((sx, sy) \<noteq> (ex, ey) \<longrightarrow>
                  p \<noteq> [] \<and> adjacent (sx, sy) (hd p) \<and> last p = (ex, ey))"
    if r: "walk w (sx, sy) r \<and> last ((sx, sy) # r) = (ex, ey)" for r
  proof -
    from r o have w: "walk w (sx, sy) p" and l: "last ((sx, sy) # p) = (ex, ey)" by blast+
    have "p \<noteq> [] \<and> adjacent (sx, sy) (hd p) \<and> last p = (ex, ey)" if "(sx, sy) \<noteq> (ex, ey)"
    proof -
      from l that have ne: "p \<noteq> []" by auto
      then have "last p = (ex, ey)" using l by simp
      then show ?thesis using ne walk_hd [OF w ne] by blast
    qed
    then show ?thesis using p w l by blast
  qed
  from 1 2 3 show ?thesis by blast
qed

theorem findPath_terminates_witness:
  "terrainMatchesSize pondWorld
   \<and> (\<exists>p. findPath pondWorld 0 0 1 0 = Some p)
   \<and> findPath pondWorld 0 0 1 0 = Some []
   \<and> walk pondWorld (0, 0) [(0, 1), (0, 2), (1, 2), (2, 2), (2, 1), (2, 0)]
   \<and> last ((0, 0) # ([(0, 1), (0, 2), (1, 2), (2, 2), (2, 1), (2, 0)] :: pos list)) = (2, 0)
   \<and> (\<exists>p. findPath pondWorld 0 0 2 0 = Some p \<and> walk pondWorld (0, 0) p
         \<and> p \<noteq> [] \<and> adjacent (0, 0) (hd p) \<and> last p = (2, 0))"
proof -
  note a = findPath_terminates [OF pond_wf, of 0 0 1 0]
  from a have 1: "\<exists>p. findPath pondWorld 0 0 1 0 = Some p" by blast
  from a pond_no_walk have 2: "findPath pondWorld 0 0 1 0 = Some []" by blast
  have l: "last ((0, 0) # ([(0, 1), (0, 2), (1, 2), (2, 2), (2, 1), (2, 0)] :: pos list)) = (2, 0)"
    by simp
  have ne: "((0, 0) :: pos) \<noteq> (2, 0)" by simp
  note b = findPath_terminates [OF pond_wf, of 0 0 2 0]
  from b pond_walk l ne
  have 3: "\<exists>p. findPath pondWorld 0 0 2 0 = Some p \<and> walk pondWorld (0, 0) p
         \<and> p \<noteq> [] \<and> adjacent (0, 0) (hd p) \<and> last p = (2, 0)"
    by blast
  from pond_wf 1 2 pond_walk l 3 show ?thesis by (intro conjI)
qed

text \<open>
  C6: on a world whose terrain array has the dimensions of its size, whenever some walk
  leads from the start to the goal, \<open>findPath\<close> returns a walk from
  the start to the goal that is no longer than any such walk, so its length is the length
  of a shortest obstacle-respecting 4-connected path. That length is at least the Manhattan
  distance, and equals it when no obstacle lies in the bounding rectangle of start and goal.
\<close>

theorem findPath_shortest:
  assumes "terrainMatchesSize w"
    and "walk w (sx, sy) r" and "last ((sx, sy) # r) = (ex, ey)"
  shows "\<exists>p. findPath w sx sy ex ey = Some p
       \<and> walk w (sx, sy) p \<and> last ((sx, sy) # p) = (ex, ey)
       \<and> length p \<le> length r
       \<and> (\<forall>r'. walk w (sx, sy) r' \<and> last ((sx, sy) # r') = (ex, ey) \<longrightarrow> length p \<le> length r')
       \<and> manhattan (sx, sy) (ex, ey) \<le> int (length p)
       \<and> (unobstructed w (sx, sy) (ex, ey) \<longrightarrow> int (length p) = manhattan (sx, sy) (ex, ey))"
proof -
  obtain p where p: "findPath w sx sy ex ey = Some p"
    and o: "(walk w (sx, sy) p \<and> last ((sx, sy) # p) = (ex, ey)
          \<and> (\<forall>r. walk w (sx, sy) r \<and> last ((sx, sy) # r) = (ex, ey) \<longrightarrow> length p \<le> length r))
         \<or> (p = [] \<and> (\<forall>r. walk w (sx, sy) r \<longrightarrow> last ((sx, sy) # r) \<noteq> (ex, ey)))"
    by (rule findPath_walk)
  from o assms(2,3) have w: "walk w (sx, sy) p" and l: "last ((sx, sy) # p) = (ex, ey)"
    and m: "\<forall>r'. walk w (sx, sy) r' \<and> last ((sx, sy) # r') = (ex, ey) \<longrightarrow> length p \<le> length r'"
    by blast+
  have lb: "manhattan (sx, sy) (ex, ey) \<le> int (length p)"
    using walk_manhattan [OF w] l by simp
  have eq: "int (length p) = manhattan (sx, sy) (ex, ey)" if u: "unobstructed w (sx, sy) (ex, ey)"
  proof -
    from u have "\<And>c. inRect (sx, sy) (ex, ey) c \<Longrightarrow> c \<noteq> (sx, sy) \<Longrightarrow> isPassable w (fst c) (snd c)"
      unfolding unobstructed_iff by blast
    from direct_walk [OF refl this]
    obtain r' where r': "walk w (sx, sy) r'" "last ((sx, sy) # r') = (ex, ey)"
      "int (length r') = manhattan (sx, sy) (ex, ey)" by blast
    with m have "length p \<le> length r'" by blast
    then show ?thesis using lb r'(3) by simp
  qed
  from p w l m lb eq assms(2,3) show ?thesis by blast
qed

theorem findPath_shortest_witness:
  "terrainMatchesSize pondWorld
   \<and> walk pondWorld (0, 0) [(0, 1), (0, 2), (1, 2), (2, 2), (2, 1), (2, 0)]
   \<and> last ((0, 0) # ([(0, 1), (0, 2), (1, 2), (2, 2), (2, 1), (2, 0)] :: pos list)) = (2, 0)
   \<and> (\<exists>p. findPath pondWorld 0 0 2 0 = Some p \<and> length p = 6
         \<and> manhattan (0, 0) (2, 0) \<le> int (length p))
   \<and> walk pondWorld (0, 0) [(0, 1), (0, 2)]
   \<and> last ((0, 0) # ([(0, 1), (0, 2)] :: pos list)) = (0, 2)
   \<and> unobstructed pondWorld (0, 0) (0, 2)
   \<and> (\<exists>p. findPath pondWorld 0 0 0 2 = Some p \<and> int (length p) = manhattan (0, 0) (0, 2)
         \<and> length p = 2)"
proof -
  have l: "last ((0, 0) # ([(0, 1), (0, 2), (1, 2), (2, 2), (2, 1), (2, 0)] :: pos list)) = (2, 0)"
    by simp
  from findPath_shortest [OF pond_wf pond_walk l]
  obtain p where p: "findPath pondWorld 0 0 2 0 = Some p"
    "length p \<le> length ([(0, 1), (0, 2), (1, 2), (2, 2), (2, 1), (2, 0)] :: pos list)"
    "manhattan (0, 0) (2, 0) \<le> int (length p)" by blast
  from p(1) pond_around
  have "p = [(0, 1), (0, 2), (1, 2), (2, 2), (2, 1), (2, 0)]" by simp
  then have "length p = 6" by simp
  with p have 1: "\<exists>p. findPath pondWorld 0 0 2 0 = Some p \<and> length p = 6
         \<and> manhattan (0, 0) (2, 0) \<le> int (length p)" by blast
  have l2: "last ((0, 0) # ([(0, 1), (0, 2)] :: pos list)) = (0, 2)" by simp
  from findPath_shortest [OF pond_wf pond_walk2 l2] pond_unobstructed
  obtain q where q: "findPath pondWorld 0 0 0 2 = Some q"
    "int (length q) = manhattan (0, 0) (0, 2)" by blast
  from q(2) have "length q = 2" by (simp add: pond_manhattan)
  with q have 2: "\<exists>p. findPath pondWorld 0 0 0 2 = Some p
         \<and> int (length p) = manhattan (0, 0) (0, 2) \<and> length p = 2" by blast
  from pond_wf pond_walk l 1 pond_walk2 l2 pond_unobstructed 2 show ?thesis by (intro conjI)
qed

section \<open>Deliveries: properties\<close>

lemma findPath_returns: "\<exists>p. findPath w sx sy ex ey = Some p"
  using findPath_outcome [of w sx sy ex ey] by blast

lemma deliver_exact:
  "\<exists>p' w'. deliverResourceToConstruction p w = Some (p', w')
     \<and> w' = w\<lparr>cobj := cobj w'\<rparr>
     \<and> (\<forall>j. cobj w' j = (cobj w j)\<lparr>allocatedResources := allocatedResources (cobj w' j)\<rparr>)
     \<and> (\<forall>j r. allocated (cobj w' j) r = allocated (cobj w j) r + booked p w j r)"
proof (cases "\<exists>i. arrived p w i")
  case False
  have "\<exists>p'. deliverResourceToConstruction p w = Some (p', w)"
  proof (cases "targetConstruction p")
    case None
    then show ?thesis by (simp add: deliverResourceToConstruction_def)
  next
    case (Some i)
    obtain q where q: "findPath w (fst (position p)) (snd (position p))
        (fst (interactionPoint (cobj w i))) (snd (interactionPoint (cobj w i))) = Some q"
      using findPath_returns by blast
    from False Some have "i \<notin> set (constructions w)
        \<or> \<not> worldDistance w (position p) (interactionPoint (cobj w i))
              < real_of_int (tileSize w) * 1.2"
      by (auto simp: arrived_def)
    then show ?thesis using Some q
      by (auto simp: deliverResourceToConstruction_def Let_def)
  qed
  moreover have "booked p w j r = 0" for j r
    using False by (simp add: booked_def)
  ultimately show ?thesis by auto
next
  case True
  then obtain i where a: "arrived p w i" by blast
  then have t: "targetConstruction p = Some i" "i \<in> set (constructions w)"
    "worldDistance w (position p) (interactionPoint (cobj w i)) < real_of_int (tileSize w) * 1.2"
    by (simp_all add: arrived_def)
  define c' where "c' = (case carriedResource p of
                        None \<Rightarrow> cobj w i
                      | Some r \<Rightarrow>
                          (cobj w i)\<lparr>allocatedResources :=
                            (allocatedResources (cobj w i))
                              (r \<mapsto> (case allocatedResources (cobj w i) r of
                                         None \<Rightarrow> 0 | Some v \<Rightarrow> v) + carriedAmount p)\<rparr>)"
  have d: "\<exists>p'. deliverResourceToConstruction p w = Some (p', w\<lparr>cobj := (cobj w)(i := c')\<rparr>)"
    using t unfolding c'_def
    by (simp add: deliverResourceToConstruction_def Let_def)
  have only: "arrived p w j \<longleftrightarrow> j = i" for j
    using a t(1) by (auto simp: arrived_def)
  have c1: "c' = (cobj w i)\<lparr>allocatedResources := allocatedResources c'\<rparr>"
    unfolding c'_def by (cases "carriedResource p") simp_all
  have c2: "allocated c' r = allocated (cobj w i) r + booked p w i r" for r
    unfolding c'_def using a
    by (cases "carriedResource p") (auto simp: booked_def allocated_def)
  have "booked p w j r = 0" if "j \<noteq> i" for j r
    using that only by (simp add: booked_def)
  with d c1 c2 show ?thesis by auto
qed

lemma arrived_cong:
  assumes "w' = w\<lparr>cobj := cobj w'\<rparr>"
    and "\<forall>j. cobj w' j = (cobj w j)\<lparr>allocatedResources := allocatedResources (cobj w' j)\<rparr>"
  shows "arrived p w' i = arrived p w i"
proof -
  have 1: "constructions w' = constructions w" "tileSize w' = tileSize w" "wsize w' = wsize w"
    by (subst assms(1), simp)+
  have "interactionPoint (cobj w' i) = interactionPoint (cobj w i)"
    by (subst assms(2) [rule_format, of i]) simp
  then show ?thesis
    by (simp add: arrived_def 1 worldDistance_def getWorldPosition_def)
qed

lemma deliverAll_exact:
  "\<exists>w'. deliverAll ps w = Some w'
     \<and> w' = w\<lparr>cobj := cobj w'\<rparr>
     \<and> (\<forall>j. cobj w' j = (cobj w j)\<lparr>allocatedResources := allocatedResources (cobj w' j)\<rparr>)
     \<and> (\<forall>j r. allocated (cobj w' j) r
                = allocated (cobj w j) r + sum_list (map (\<lambda>p. booked p w j r) ps))"
proof (induction ps arbitrary: w)
  case Nil
  show ?case by simp
next
  case (Cons p ps)
  from deliver_exact [of p w] obtain p1 w1 where
    d: "deliverResourceToConstruction p w = Some (p1, w1)"
    and f1: "w1 = w\<lparr>cobj := cobj w1\<rparr>"
    and g1: "\<forall>j. cobj w1 j = (cobj w j)\<lparr>allocatedResources := allocatedResources (cobj w1 j)\<rparr>"
    and s1: "\<forall>j r. allocated (cobj w1 j) r = allocated (cobj w j) r + booked p w j r"
    by blast
  from Cons.IH [of w1] obtain w' where
    r: "deliverAll ps w1 = Some w'"
    and f2: "w' = w1\<lparr>cobj := cobj w'\<rparr>"
    and g2: "\<forall>j. cobj w' j = (cobj w1 j)\<lparr>allocatedResources := allocatedResources (cobj w' j)\<rparr>"
    and s2: "\<forall>j r. allocated (cobj w' j) r
                = allocated (cobj w1 j) r + sum_list (map (\<lambda>p. booked p w1 j r) ps)"
    by blast
  have b: "booked q w1 j r = booked q w j r" for q j r
    by (simp add: booked_def arrived_cong [OF f1 g1])
  have 1: "deliverAll (p # ps) w = Some w'" using d r by simp
  have 2: "w' = w\<lparr>cobj := cobj w'\<rparr>"
    by (subst f2, subst f1) simp
  have 3: "cobj w' j = (cobj w j)\<lparr>allocatedResources := allocatedResources (cobj w' j)\<rparr>" for j
    by (subst g2 [rule_format, of j], subst g1 [rule_format, of j]) simp
  have 4: "allocated (cobj w' j) r
        = allocated (cobj w j) r + sum_list (map (\<lambda>p. booked p w j r) (p # ps))" for j r
    using s1 s2 by (simp add: b)
  from 1 2 3 4 show ?case by blast
qed

lemma fetch_one_unit:
  assumes "state q = FETCHING_RESOURCE"
    and "state (fst (fetchResourceFromWarehouse q w)) = DELIVERING_RESOURCE"
  shows "carriedAmount (fst (fetchResourceFromWarehouse q w)) = 1
       \<and> carriedResource (fst (fetchResourceFromWarehouse q w)) = resourceToFetch q
       \<and> resourceToFetch q \<noteq> None"
  using assms
  by (auto simp: fetchResourceFromWarehouse_def moveTo_def split: option.splits if_splits)

text \<open>
  C3, as the code has it. Every sequence of deliveries returns, and changes nothing of the
  world but the allocated amounts of constructions: every other field of every construction,
  the required manifest among them, the list of constructions, the ledger, the buildings and
  the terrain are as before. Each delivery adds the carried amount to the entry of the
  carried type of the porter's target, when the target is in the world's list and the porter
  is at its interaction point, and books nothing otherwise; so the allocated amount of every
  resource of every construction after the sequence is the amount before plus the amounts
  booked on it. With carried amounts that are not negative no allocated amount decreases,
  and a single delivery of at most one unit keeps an entry at or below a bound that it was
  strictly below before. A fetch that hands over a resource hands over one unit of the
  resource to fetch. The delivery itself does not compare the allocation with the
  requirement.
\<close>

theorem delivery_allocation_monotone:
  "\<exists>w'. deliverAll ps w = Some w'
     \<and> w' = w\<lparr>cobj := cobj w'\<rparr>
     \<and> (\<forall>j. cobj w' j = (cobj w j)\<lparr>allocatedResources := allocatedResources (cobj w' j)\<rparr>)
     \<and> (\<forall>j. requiredResources (cobj w' j) = requiredResources (cobj w j))
     \<and> (\<forall>j r. allocated (cobj w' j) r
                = allocated (cobj w j) r + sum_list (map (\<lambda>p. booked p w j r) ps))
     \<and> (list_all (\<lambda>p. 0 \<le> carriedAmount p) ps \<longrightarrow>
          (\<forall>j r. allocated (cobj w j) r \<le> allocated (cobj w' j) r))
     \<and> (\<forall>p j r a. ps = [p] \<and> carriedAmount p \<le> 1 \<and> allocated (cobj w j) r < a \<longrightarrow>
          allocated (cobj w' j) r \<le> a)
     \<and> (state q = FETCHING_RESOURCE
          \<and> state (fst (fetchResourceFromWarehouse q w)) = DELIVERING_RESOURCE \<longrightarrow>
          carriedAmount (fst (fetchResourceFromWarehouse q w)) = 1
          \<and> carriedResource (fst (fetchResourceFromWarehouse q w)) = resourceToFetch q)"
proof -
  from deliverAll_exact [of ps w] obtain w' where
    1: "deliverAll ps w = Some w'"
    and 2: "w' = w\<lparr>cobj := cobj w'\<rparr>"
    and 3: "\<forall>j. cobj w' j = (cobj w j)\<lparr>allocatedResources := allocatedResources (cobj w' j)\<rparr>"
    and 4: "\<forall>j r. allocated (cobj w' j) r
                = allocated (cobj w j) r + sum_list (map (\<lambda>p. booked p w j r) ps)"
    by blast
  have rq: "\<forall>j. requiredResources (cobj w' j) = requiredResources (cobj w j)"
  proof
    fix j
    show "requiredResources (cobj w' j) = requiredResources (cobj w j)"
      by (subst 3 [rule_format, of j]) simp
  qed
  have nn: "0 \<le> sum_list (map (\<lambda>p. booked p w j r) ps)"
    if "list_all (\<lambda>p. 0 \<le> carriedAmount p) ps" for j r
    using that by (induction ps) (auto simp: booked_def)
  have 5: "list_all (\<lambda>p. 0 \<le> carriedAmount p) ps \<longrightarrow>
          (\<forall>j r. allocated (cobj w j) r \<le> allocated (cobj w' j) r)"
    using 4 nn by auto
  have 6: "\<forall>p j r a. ps = [p] \<and> carriedAmount p \<le> 1 \<and> allocated (cobj w j) r < a \<longrightarrow>
          allocated (cobj w' j) r \<le> a"
    using 4 by (auto simp: booked_def)
  have 7: "state q = FETCHING_RESOURCE
          \<and> state (fst (fetchResourceFromWarehouse q w)) = DELIVERING_RESOURCE \<longrightarrow>
          carriedAmount (fst (fetchResourceFromWarehouse q w)) = 1
          \<and> carriedResource (fst (fetchResourceFromWarehouse q w)) = resourceToFetch q"
    using fetch_one_unit by blast
  from 1 2 3 rq 4 5 6 7 show ?thesis by blast
qed

lemma carrier_booked: "booked carrier raceWorld 0 PLANK = 1"
  by (simp add: booked_def arrived_def carrier_def Porter_new_def raceWorld_simps
        Construction_new_def Building_new_def defineInteractionPoint_def
        worldDistance_def getWorldPosition_def sqrt_lt_iff power2_eq_square)

lemma raceWorld_site:
  "allocated (cobj raceWorld 0) PLANK = 0" "requiredResources (cobj raceWorld 0) = [(PLANK, 5)]"
  by (simp_all add: raceWorld_simps Construction_new_fields allocated_def Construction_new_def
        Building_new_def defineInteractionPoint_def Let_def)

lemma fetcher_takes:
  "state fetcher = FETCHING_RESOURCE"
  "state (fst (fetchResourceFromWarehouse fetcher raceWorld)) = DELIVERING_RESOURCE"
proof -
  show "state fetcher = FETCHING_RESOURCE" by (simp add: fetcher_def)
  have r: "readyToFetch fetcher raceWorld PLANK"
    using fetcher_ready [of "resourceManager raceWorld"] by simp
  have "0 < getResource (resourceManager raceWorld) PLANK"
    by (simp add: raceWorld_simps getResource_eq)
  from fetch_some [OF r this]
  show "state (fst (fetchResourceFromWarehouse fetcher raceWorld)) = DELIVERING_RESOURCE"
    by simp
qed

theorem delivery_allocation_monotone_witness:
  "(\<exists>w'. deliverAll [carrier, carrier] raceWorld = Some w'
       \<and> allocated (cobj w' 0) PLANK = 2 \<and> requiredResources (cobj w' 0) = [(PLANK, 5)]
       \<and> allocated (cobj raceWorld 0) PLANK \<le> allocated (cobj w' 0) PLANK)
   \<and> allocated (cobj raceWorld 0) PLANK = 0
   \<and> booked carrier raceWorld 0 PLANK = 1
   \<and> list_all (\<lambda>p. 0 \<le> carriedAmount p) [carrier, carrier]
   \<and> carriedAmount carrier \<le> 1 \<and> allocated (cobj raceWorld 0) PLANK < 5
   \<and> (\<exists>w'. deliverAll [carrier] raceWorld = Some w' \<and> allocated (cobj w' 0) PLANK \<le> 5)
   \<and> state fetcher = FETCHING_RESOURCE
   \<and> state (fst (fetchResourceFromWarehouse fetcher raceWorld)) = DELIVERING_RESOURCE
   \<and> carriedAmount (fst (fetchResourceFromWarehouse fetcher raceWorld)) = 1"
proof -
  have c: "list_all (\<lambda>p. 0 \<le> carriedAmount p) [carrier, carrier]"
    by (simp add: carrier_def)
  have c1: "carriedAmount carrier \<le> 1" by (simp add: carrier_def Porter_new_def)
  have lt: "allocated (cobj raceWorld 0) PLANK < 5" by (simp add: raceWorld_site)
  from delivery_allocation_monotone [of "[carrier, carrier]" raceWorld fetcher]
  obtain w' where w': "deliverAll [carrier, carrier] raceWorld = Some w'"
    and g: "\<forall>j. cobj w' j = (cobj raceWorld j)\<lparr>allocatedResources := allocatedResources (cobj w' j)\<rparr>"
    and s: "\<forall>j r. allocated (cobj w' j) r
                = allocated (cobj raceWorld j) r
                  + sum_list (map (\<lambda>p. booked p raceWorld j r) [carrier, carrier])"
    and m: "list_all (\<lambda>p. 0 \<le> carriedAmount p) [carrier, carrier] \<longrightarrow>
          (\<forall>j r. allocated (cobj raceWorld j) r \<le> allocated (cobj w' j) r)"
    and f: "state fetcher = FETCHING_RESOURCE
          \<and> state (fst (fetchResourceFromWarehouse fetcher raceWorld)) = DELIVERING_RESOURCE \<longrightarrow>
          carriedAmount (fst (fetchResourceFromWarehouse fetcher raceWorld)) = 1
          \<and> carriedResource (fst (fetchResourceFromWarehouse fetcher raceWorld))
              = resourceToFetch fetcher"
    by blast
  have a2: "allocated (cobj w' 0) PLANK = 2"
    using s [rule_format, of 0 PLANK] by (simp add: carrier_booked raceWorld_site)
  have "requiredResources (cobj w' 0) = requiredResources (cobj raceWorld 0)"
    by (subst g [rule_format, of 0]) simp
  then have rq: "requiredResources (cobj w' 0) = [(PLANK, 5)]" by (simp add: raceWorld_site)
  have mo: "allocated (cobj raceWorld 0) PLANK \<le> allocated (cobj w' 0) PLANK"
    using m c by blast
  have 1: "\<exists>w'. deliverAll [carrier, carrier] raceWorld = Some w'
       \<and> allocated (cobj w' 0) PLANK = 2 \<and> requiredResources (cobj w' 0) = [(PLANK, 5)]
       \<and> allocated (cobj raceWorld 0) PLANK \<le> allocated (cobj w' 0) PLANK"
    using w' a2 rq mo by blast
  from delivery_allocation_monotone [of "[carrier]" raceWorld fetcher]
  obtain w1 where w1: "deliverAll [carrier] raceWorld = Some w1"
    and b: "\<forall>p j r a. [carrier] = [p] \<and> carriedAmount p \<le> 1 \<and> allocated (cobj raceWorld j) r < a \<longrightarrow>
          allocated (cobj w1 j) r \<le> a"
    by blast
  from b [rule_format, of carrier 0 PLANK 5] c1 lt
  have "allocated (cobj w1 0) PLANK \<le> 5" by simp
  with w1 have 2: "\<exists>w'. deliverAll [carrier] raceWorld = Some w' \<and> allocated (cobj w' 0) PLANK \<le> 5"
    by blast
  from f fetcher_takes
  have 3: "carriedAmount (fst (fetchResourceFromWarehouse fetcher raceWorld)) = 1" by blast
  from 1 raceWorld_site(1) carrier_booked c c1 lt 2 fetcher_takes 3 show ?thesis by (intro conjI)
qed

end
